theory Spec2Isabelle
  imports Main
begin

section \<open>Strings\<close>

text \<open>
  A string of the program is modelled as a \<^typ>\<open>string\<close>: the list of the bytes of its
  UTF-8 encoding. The glyphs of the workflow table and the check mark that the tracker's
  command line prints are therefore several bytes long. Case conversion and white space
  are the ASCII ones: \<open>toUpperCase\<close> maps the letters a..z and leaves every other byte
  alone, and white space is tab, line feed, vertical tab, form feed, carriage return and
  space.
\<close>

definition upper_char :: "char \<Rightarrow> char" where
  "upper_char c =
     (let n = (of_char c :: nat) in if 97 \<le> n \<and> n \<le> 122 then char_of (n - 32) else c)"

definition toUpperCase :: "string \<Rightarrow> string" where
  "toUpperCase s = map upper_char s"

definition is_space :: "char \<Rightarrow> bool" where
  "is_space c = (let n = (of_char c :: nat) in (9 \<le> n \<and> n \<le> 13) \<or> n = 32)"

definition trimStart :: "string \<Rightarrow> string" where
  "trimStart s = dropWhile is_space s"

definition trimEnd :: "string \<Rightarrow> string" where
  "trimEnd s = rev (dropWhile is_space (rev s))"

definition trim :: "string \<Rightarrow> string" where
  "trim s = trimEnd (trimStart s)"

definition startsWith :: "string \<Rightarrow> string \<Rightarrow> bool" where
  "startsWith s p = (take (length p) s = p)"

definition endsWith :: "string \<Rightarrow> string \<Rightarrow> bool" where
  "endsWith s p = (length p \<le> length s \<and> drop (length s - length p) s = p)"

text \<open>\<open>s.slice(0, n)\<close> for a non-negative \<open>n\<close>.\<close>

definition slice0 :: "nat \<Rightarrow> string \<Rightarrow> string" where
  "slice0 n s = take n s"

text \<open>JavaScript's truthiness of a string: every string but the empty one.\<close>

definition truthy :: "string \<Rightarrow> bool" where
  "truthy s = (s \<noteq> [])"

text \<open>\<open>xs.find(p)\<close>: the first element that satisfies \<open>p\<close>, or \<open>undefined\<close>.\<close>

fun find_first :: "('a \<Rightarrow> bool) \<Rightarrow> 'a list \<Rightarrow> 'a option" where
  "find_first p [] = None"
| "find_first p (x # xs) = (if p x then Some x else find_first p xs)"

text \<open>\<open>xs.findIndex(p)\<close>: the index of the first such element, or \<open>-1\<close>.\<close>

fun findIndex :: "('a \<Rightarrow> bool) \<Rightarrow> 'a list \<Rightarrow> int" where
  "findIndex p [] = - 1"
| "findIndex p (x # xs) =
     (if p x then 0 else (let i = findIndex p xs in if i = - 1 then - 1 else i + 1))"

section \<open>Workflow definition\<close>

record WorkflowStep =
  status :: string
  emoji :: string
  color :: string
  description :: string

definition mkStep :: "string \<Rightarrow> string \<Rightarrow> string \<Rightarrow> string \<Rightarrow> WorkflowStep" where
  "mkStep s e c d = \<lparr> status = s, emoji = e, color = c, description = d \<rparr>"

definition WORKFLOW :: "WorkflowStep list" where
  "WORKFLOW =
    [ mkStep ''Waiting'' [CHR 0xF0, CHR 0x9F, CHR 0x93, CHR 0x8B] ''#8B9EB0''
        ''Waiting to be started'',
      mkStep ''Doing'' [CHR 0xF0, CHR 0x9F, CHR 0x94, CHR 0xA8] ''#F4A261''
        ''Actively in development'',
      mkStep ''Integration'' [CHR 0xF0, CHR 0x9F, CHR 0x94, CHR 0x97] ''#E9C46A''
        ''Integrating with other services'',
      mkStep ''1ST REVIEW'' [CHR 0xF0, CHR 0x9F, CHR 0x91, CHR 0x80] ''#2A9D8F''
        ''First code review'',
      mkStep ''Testing'' [CHR 0xF0, CHR 0x9F, CHR 0xA7, CHR 0xAA] ''#4361EE''
        ''QA / manual testing'',
      mkStep ''2ND REVIEW'' [CHR 0xF0, CHR 0x9F, CHR 0x94, CHR 0x8D] ''#7209B7''
        ''Second code review'',
      mkStep ''UAT'' [CHR 0xE2, CHR 0x9C, CHR 0x85] ''#3A86FF''
        ''User acceptance testing'',
      mkStep ''Staging'' [CHR 0xF0, CHR 0x9F, CHR 0x9A, CHR 0x80] ''#FF6B6B''
        ''Deployed to staging'',
      mkStep ''Regression'' [CHR 0xF0, CHR 0x9F, CHR 0x94, CHR 0x84] ''#FB8500''
        ''Regression testing'',
      mkStep ''Delivering'' [CHR 0xF0, CHR 0x9F, CHR 0x93, CHR 0xA6] ''#6A4C93''
        ''Delivering to production'',
      mkStep ''Done'' [CHR 0xF0, CHR 0x9F, CHR 0x8E, CHR 0x89] ''#2DC653''
        ''Completed'' ]"

text \<open>\<open>STATUS_ALIASES\<close>: a legacy spelling and the canonical name it stands for.\<close>

definition STATUS_ALIASES :: "(string \<times> string) list" where
  "STATUS_ALIASES = [(''TO DO'', ''WAITING'')]"

text \<open>
  \<open>STATUS_FALLBACKS\<close> is built at start-up by a loop over the entries of
  \<open>STATUS_ALIASES\<close>, which appends each alias to the list kept under its canonical name.
\<close>

definition push_fallback ::
  "(string \<times> string list) list \<Rightarrow> string \<times> string \<Rightarrow> (string \<times> string list) list" where
  "push_fallback tbl e =
     (case e of (alias, canonical) \<Rightarrow>
        (case map_of tbl canonical of
           None \<Rightarrow> tbl @ [(canonical, [alias])]
         | Some as \<Rightarrow> map (\<lambda>(k, v). if k = canonical then (k, v @ [alias]) else (k, v)) tbl))"

definition STATUS_FALLBACKS :: "(string \<times> string list) list" where
  "STATUS_FALLBACKS = foldl push_fallback [] STATUS_ALIASES"

definition normalizeStatus :: "string \<Rightarrow> string" where
  "normalizeStatus s =
     (let upper = toUpperCase (trim s)
      in case map_of STATUS_ALIASES upper of Some canonical \<Rightarrow> canonical | None \<Rightarrow> upper)"

text \<open>\<open>WORKFLOW_MAP\<close>: a later entry of the same key replaces an earlier one.\<close>

definition WORKFLOW_MAP :: "string \<rightharpoonup> WorkflowStep" where
  "WORKFLOW_MAP = map_of (rev (map (\<lambda>step. (normalizeStatus (status step), step)) WORKFLOW))"

definition getWorkflowStep :: "string \<Rightarrow> WorkflowStep option" where
  "getWorkflowStep s = WORKFLOW_MAP (normalizeStatus s)"

definition getWorkflowIndex :: "string \<Rightarrow> int" where
  "getWorkflowIndex s =
     findIndex (\<lambda>st. normalizeStatus (status st) = normalizeStatus s) WORKFLOW"

definition getNextStatus :: "string \<Rightarrow> WorkflowStep option" where
  "getNextStatus currentStatus =
     (let idx = getWorkflowIndex currentStatus
      in if idx = - 1 \<or> idx \<ge> int (length WORKFLOW) - 1 then None
         else Some (WORKFLOW ! nat (idx + 1)))"

definition getPreviousStatus :: "string \<Rightarrow> WorkflowStep option" where
  "getPreviousStatus currentStatus =
     (let idx = getWorkflowIndex currentStatus
      in if idx \<le> 0 then None else Some (WORKFLOW ! nat (idx - 1)))"

definition getRemainingSteps :: "string \<Rightarrow> WorkflowStep list" where
  "getRemainingSteps currentStatus =
     (let idx = getWorkflowIndex currentStatus
      in if idx = - 1 then [] else drop (nat (idx + 1)) WORKFLOW)"

section \<open>The tracker's command line and the outside world\<close>

text \<open>
  A failure of the program is an \<open>Error\<close> carrying a message; a function that can throw
  returns \<open>Inl message\<close>, and \<open>Inr\<close> its result otherwise.
\<close>

type_synonym 'a result = "string + 'a"

datatype json =
    JNull
  | JBool bool
  | JNum int
  | JStr string
  | JArr "json list"
  | JObj "(string \<times> json) list"

text \<open>
  What the program runs outside itself: a shell command line (\<open>exec\<close>), a \<open>curl\<close>
  request, or a pause. The body of a \<open>PUT\<close> is kept as the JSON value that the program
  serializes.
\<close>

datatype command =
    Exec string
  | CurlGet string string
  | CurlPut string string json
  | Sleep nat

record Preferences =
  jiraCliPath :: string
  jiraProject :: string
  jiraServer :: string
  jiraApiToken :: string
  commonAssignees :: string
  qaAssignee :: string
  reviewerAssignee :: string

text \<open>
  The outside world answers every command: \<open>respond\<close> maps the commands run so far,
  the current one last, to the standard output of a command that exits successfully
  (\<open>Inr\<close>) or to the message of the error a failing one raises (\<open>Inl\<close>).
  \<open>JSON_parse\<close> is the platform's parser (\<open>None\<close> when it throws),
  \<open>encodeURIComponent\<close> the platform's encoder, and \<open>unmounted\<close> tells whether the
  view has been closed by the time the given commands have run.
\<close>

record world =
  prefs :: Preferences
  respond :: "command list \<Rightarrow> string + string"
  JSON_parse :: "string \<Rightarrow> json option"
  encodeURIComponent :: "string \<Rightarrow> string"
  unmounted :: "command list \<Rightarrow> bool"

text \<open>The process-wide state of \<open>utils.ts\<close>: the commands run and the cached field catalog.\<close>

record io =
  calls :: "command list"
  cachedFieldMap :: "(string \<times> string) list option"

definition getJiraCliPath :: "world \<Rightarrow> string" where
  "getJiraCliPath w = (if truthy (jiraCliPath (prefs w)) then jiraCliPath (prefs w) else ''jira'')"

definition is_digit :: "char \<Rightarrow> bool" where
  "is_digit c = (let n = (of_char c :: nat) in 48 \<le> n \<and> n \<le> 57)"

text \<open>Removing the ANSI colour codes: \<open>msg.replaceAll(/\u001b\[[0-9;]*m/g, "")\<close>.\<close>

function strip_ansi :: "string \<Rightarrow> string" where
  "strip_ansi [] = []"
| "strip_ansi (c # cs) =
     (if c = CHR 0x1B \<and> startsWith cs ''[''
      then (case dropWhile (\<lambda>d. is_digit d \<or> d = CHR '';'') (tl cs) of
              [] \<Rightarrow> c # strip_ansi cs
            | m # rest \<Rightarrow> if m = CHR ''m'' then strip_ansi rest else c # strip_ansi cs)
      else c # strip_ansi cs)"
  by pat_completeness auto
termination
proof (relation "measure length")
  fix c :: char and cs x21 x22
  assume "dropWhile (\<lambda>d. is_digit d \<or> d = CHR '';'') (tl cs) = x21 # x22"
  then have "length (x21 # x22) \<le> length (tl cs)"
    by (metis length_dropWhile_le)
  then show "(x22, c # cs) \<in> measure length" by simp
qed simp_all

definition runJira :: "world \<Rightarrow> string \<Rightarrow> io \<Rightarrow> string result \<times> io" where
  "runJira w args s =
     (let cli = getJiraCliPath w;
          cmd = cli @ '' '' @ args;
          h = calls s @ [Exec cmd]
      in case respond w h of
           Inr stdout \<Rightarrow> (Inr stdout, s\<lparr>calls := h\<rparr>)
         | Inl msg \<Rightarrow> (Inl (''jira CLI (exit 1): '' @ strip_ansi msg), s\<lparr>calls := h\<rparr>))"

section \<open>Transitions\<close>

text \<open>\<open>s.includes(p)\<close>: \<open>p\<close> occurs in \<open>s\<close>.\<close>

fun includes_str :: "string \<Rightarrow> string \<Rightarrow> bool" where
  "includes_str [] p = (p = [])"
| "includes_str (c # cs) p = (startsWith (c # cs) p \<or> includes_str cs p)"

text \<open>\<open>s.split(d)\<close> for a one-character separator.\<close>

fun split_acc :: "char \<Rightarrow> string \<Rightarrow> string \<Rightarrow> string list" where
  "split_acc d acc [] = [rev acc]"
| "split_acc d acc (c # cs) =
     (if c = d then rev acc # split_acc d [] cs else split_acc d (c # acc) cs)"

definition split_on :: "char \<Rightarrow> string \<Rightarrow> string list" where
  "split_on d s = split_acc d [] s"

text \<open>A line terminator, which the pattern \<open>.\<close> does not match.\<close>

definition is_line_end :: "char \<Rightarrow> bool" where
  "is_line_end c = (c = CHR 0x0A \<or> c = CHR 0x0D)"

text \<open>
  The pattern \<open>/Available states for issue [^:]+:\s*(.+)/i\<close> tried at the start of a
  string; the result is the captured group. The marker is compared without regard to
  case; \<open>[^:]+\<close> takes the characters up to the first colon, at least one; \<open>\s*\<close> takes
  the white space that follows, and gives back, from the right, what \<open>(.+)\<close> needs when
  the string ends there.
\<close>

definition match_available_at :: "string \<Rightarrow> string option" where
  "match_available_at s =
     (let marker = ''AVAILABLE STATES FOR ISSUE ''
      in if toUpperCase (take (length marker) s) \<noteq> marker then None
         else
           let r = drop (length marker) s;
               name = takeWhile (\<lambda>c. c \<noteq> CHR '':'') r;
               rest = dropWhile (\<lambda>c. c \<noteq> CHR '':'') r
           in if name = [] \<or> rest = [] then None
              else
                let after = tl rest;
                    ws = takeWhile is_space after;
                    more = dropWhile is_space after
                in if more \<noteq> [] then Some (takeWhile (\<lambda>c. \<not> is_line_end c) more)
                   else (case dropWhile is_line_end (rev ws) of
                           [] \<Rightarrow> None
                         | c # _ \<Rightarrow> Some [c]))"

text \<open>\<open>re.exec(errMsg)\<close>: the leftmost position at which the pattern matches.\<close>

fun exec_available :: "string \<Rightarrow> string option" where
  "exec_available [] = None"
| "exec_available (c # cs) =
     (case match_available_at (c # cs) of
        Some g \<Rightarrow> Some g
      | None \<Rightarrow> exec_available cs)"

text \<open>\<open>s.replaceAll(/(?:^')|(?:'$)/g, "")\<close>: a leading and a trailing quote are removed.\<close>

definition strip_quotes :: "string \<Rightarrow> string" where
  "strip_quotes s =
     (let s1 = (if startsWith s [CHR 0x27] then tl s else s)
      in if s1 \<noteq> [] \<and> last s1 = CHR 0x27 then butlast s1 else s1)"

definition parseAvailableTransitions :: "string \<Rightarrow> string list" where
  "parseAvailableTransitions errorMsg =
     (case exec_available errorMsg of
        None \<Rightarrow> []
      | Some g \<Rightarrow> filter truthy (map (\<lambda>s. strip_quotes (trim s)) (split_on CHR '','' g)))"

text \<open>\<open>if (x)\<close> for the result of \<open>find\<close>: defined and not the empty string.\<close>

definition truthy_opt :: "string option \<Rightarrow> bool" where
  "truthy_opt x = (case x of None \<Rightarrow> False | Some s \<Rightarrow> truthy s)"

text \<open>The value of \<open>x\<close> where \<open>if (x)\<close> holds.\<close>

definition truthy_val :: "string option \<Rightarrow> string option" where
  "truthy_val x = (if truthy_opt x then x else None)"

definition findMatchingTransition :: "string \<Rightarrow> string list \<Rightarrow> string option" where
  "findMatchingTransition targetStatus available =
     (let target = toUpperCase targetStatus;
          exact = find_first (\<lambda>t. toUpperCase t = target) available
      in if truthy_opt exact then exact
         else
           let backTo = find_first (\<lambda>t. toUpperCase t = ''BACK TO '' @ target) available
           in if truthy_opt backTo then backTo
              else
                let suffix = find_first
                      (\<lambda>t. endsWith (toUpperCase t) target \<and> toUpperCase t \<noteq> target) available
                in if truthy_opt suffix then suffix else None)"

text \<open>The check mark U+2713, as the command line prints it.\<close>

definition check_mark :: string where
  "check_mark = [CHR 0xE2, CHR 0x9C, CHR 0x93]"

text \<open>\<open>/error|failed|invalid/i.test(stdout)\<close>\<close>

definition mentions_failure :: "string \<Rightarrow> bool" where
  "mentions_failure stdout =
     (let u = toUpperCase stdout
      in includes_str u ''ERROR'' \<or> includes_str u ''FAILED'' \<or> includes_str u ''INVALID'')"

definition move_args :: "string \<Rightarrow> string \<Rightarrow> string" where
  "move_args ticketKey transitionName =
     ''issue move '' @ ticketKey @ '' '' @ [CHR 0x22] @ transitionName @ [CHR 0x22]"

definition tryMove :: "world \<Rightarrow> string \<Rightarrow> string \<Rightarrow> io \<Rightarrow> unit result \<times> io" where
  "tryMove w ticketKey transitionName s =
     (case runJira w (move_args ticketKey transitionName) s of
        (Inl e, s1) \<Rightarrow> (Inl e, s1)
      | (Inr stdout, s1) \<Rightarrow>
          if mentions_failure stdout \<and> \<not> includes_str stdout check_mark
          then (Inl (''Transition may have failed.'' @ [CHR 0x0A, CHR 0x0A] @ ''CLI output:''
                       @ [CHR 0x0A] @ slice0 400 stdout), s1)
          else (Inr (), s1))"

fun tryFallbacks :: "world \<Rightarrow> string \<Rightarrow> string list \<Rightarrow> io \<Rightarrow> bool \<times> io" where
  "tryFallbacks w ticketKey [] s = (False, s)"
| "tryFallbacks w ticketKey (fallback # fallbacks) s =
     (case tryMove w ticketKey fallback s of
        (Inr _, s1) \<Rightarrow> (True, s1)
      | (Inl _, s1) \<Rightarrow> tryFallbacks w ticketKey fallbacks s1)"

definition transitionIssue :: "world \<Rightarrow> string \<Rightarrow> string \<Rightarrow> io \<Rightarrow> unit result \<times> io" where
  "transitionIssue w ticketKey targetStatus s =
     (let fallbacks = (case map_of STATUS_FALLBACKS (toUpperCase targetStatus) of
                         Some fs \<Rightarrow> fs | None \<Rightarrow> [])
      in case tryMove w ticketKey targetStatus s of
           (Inr _, s1) \<Rightarrow> (Inr (), s1)
         | (Inl primaryError, s1) \<Rightarrow>
             let available = parseAvailableTransitions primaryError;
                 match = findMatchingTransition targetStatus available
             in case truthy_val match of
                  Some m \<Rightarrow> tryMove w ticketKey m s1
                | None \<Rightarrow>
                    (case tryFallbacks w ticketKey fallbacks s1 of
                       (True, s2) \<Rightarrow> (Inr (), s2)
                     | (False, s2) \<Rightarrow> (Inl primaryError, s2)))"

text \<open>The command line of one transition attempt, as \<open>runJira\<close> builds it.\<close>

definition move_cmd :: "world \<Rightarrow> string \<Rightarrow> string \<Rightarrow> command" where
  "move_cmd w ticketKey transitionName =
     Exec (getJiraCliPath w @ '' '' @ move_args ticketKey transitionName)"

text \<open>
  The outcome of the attempt under the \<open>i\<close>-th alias of \<open>fs\<close>, made after the attempts
  under the \<open>i\<close> aliases before it, all starting from the state \<open>s\<close>.
\<close>

definition alias_attempt :: "world \<Rightarrow> string \<Rightarrow> string list \<Rightarrow> io \<Rightarrow> nat \<Rightarrow> unit result" where
  "alias_attempt w k fs s i =
     fst (tryMove w k (fs ! i) (s\<lparr>calls := calls s @ map (move_cmd w k) (take i fs)\<rparr>))"


section \<open>Dev date auto-fill\<close>

record FieldRef =
  name :: string
  id' :: string

definition devStartDate :: FieldRef where
  "devStartDate = \<lparr> name = ''Dev Start Date'', id' = ''customfield_11516'' \<rparr>"

definition devDueDate :: FieldRef where
  "devDueDate = \<lparr> name = ''Dev Due Date'', id' = ''customfield_10304'' \<rparr>"

definition plannedStart :: FieldRef where
  "plannedStart = \<lparr> name = ''Planned Dev Start Date'', id' = ''customfield_11520'' \<rparr>"

definition plannedDue :: FieldRef where
  "plannedDue = \<lparr> name = ''Planned Dev Due Date'', id' = ''customfield_11509'' \<rparr>"

text \<open>
  Reading the property \<open>k\<close> of a parsed JSON value, for the keys the program reads
  (\<open>fields\<close>, \<open>value\<close>, \<open>name\<close>, the field ids), none of which is an index or a built-in
  property: only an object has it, and the last of several equal keys counts.
\<close>

definition js_get :: "json \<Rightarrow> string \<Rightarrow> json option" where
  "js_get v k = (case v of JObj kvs \<Rightarrow> map_of (rev kvs) k | _ \<Rightarrow> None)"

text \<open>
  What \<open>getIssueRawFields\<close> keeps of a field: a string, the string \<open>value\<close> of an
  object, or \<open>null\<close>.
\<close>

definition field_string :: "json option \<Rightarrow> string option" where
  "field_string val =
     (case val of
        Some (JStr x) \<Rightarrow> Some x
      | Some (JObj kvs) \<Rightarrow>
          (case js_get (JObj kvs) ''value'' of Some (JStr x) \<Rightarrow> Some x | _ \<Rightarrow> None)
      | _ \<Rightarrow> None)"

definition view_args :: "string \<Rightarrow> string" where
  "view_args ticketKey = ''issue view '' @ ticketKey @ '' --raw''"

definition getIssueRawFields ::
  "world \<Rightarrow> string \<Rightarrow> string list \<Rightarrow> io \<Rightarrow> (string \<times> string option) list result \<times> io" where
  "getIssueRawFields w ticketKey fieldIds s =
     (case runJira w (view_args ticketKey) s of
        (Inl e, s1) \<Rightarrow> (Inl e, s1)
      | (Inr stdout, s1) \<Rightarrow>
          (case JSON_parse w stdout of
             None \<Rightarrow>
               (Inl (''Could not parse JSON from jira CLI output for '' @ ticketKey @ ''.''
                       @ [CHR 0x0A, CHR 0x0A] @ ''Raw output:'' @ [CHR 0x0A] @ slice0 500 stdout),
                s1)
           | Some parsed \<Rightarrow>
               let fields' = (case js_get parsed ''fields'' of
                                None \<Rightarrow> JObj [] | Some JNull \<Rightarrow> JObj [] | Some f \<Rightarrow> f)
               in (Inr (map (\<lambda>i. (i, field_string (js_get fields' i))) fieldIds), s1)))"

text \<open>\<open>raw[id]\<close>: the string read for a field; \<open>None\<close> stands for \<open>null\<close> and \<open>undefined\<close>.\<close>

definition raw_at :: "(string \<times> string option) list \<Rightarrow> string \<Rightarrow> string option" where
  "raw_at raw i = (case map_of raw i of Some (Some x) \<Rightarrow> Some x | _ \<Rightarrow> None)"

definition FIELD_NAME_TO_ID :: "(string \<times> string) list" where
  "FIELD_NAME_TO_ID =
     [ (name devStartDate, id' devStartDate),
       (name devDueDate, id' devDueDate),
       (name plannedStart, id' plannedStart),
       (name plannedDue, id' plannedDue) ]"

text \<open>\<open>prefs.jiraServer.replace(/\/+$/, "")\<close>: the slashes at the end are removed.\<close>

definition strip_trailing_slashes :: "string \<Rightarrow> string" where
  "strip_trailing_slashes s = rev (dropWhile (\<lambda>c. c = CHR ''/'') (rev s))"

record auth =
  server :: string
  token :: string

definition getJiraAuth :: "world \<Rightarrow> auth result" where
  "getJiraAuth w =
     (let server = strip_trailing_slashes (jiraServer (prefs w));
          token = jiraApiToken (prefs w)
      in if \<not> truthy server \<or> \<not> truthy token
         then Inl ''Jira Server URL and API Token must be set in preferences.''
         else Inr \<lparr> server = server, token = token \<rparr>)"

text \<open>
  The field catalog of the tracker is an array of objects with a \<open>name\<close> and an \<open>id\<close>.
  The model keeps the entries whose name and id are strings; a \<open>null\<close> entry, or an
  answer that is not an array, makes the loop over the catalog throw, which leaves the
  cache empty.
\<close>

fun catalog_entries :: "json list \<Rightarrow> (string \<times> string) list option" where
  "catalog_entries [] = Some []"
| "catalog_entries (JNull # fs) = None"
| "catalog_entries (f # fs) =
     (case catalog_entries fs of
        None \<Rightarrow> None
      | Some rest \<Rightarrow>
          (case (js_get f ''name'', js_get f ''id'') of
             (Some (JStr n), Some (JStr i)) \<Rightarrow> Some ((n, i) # rest)
           | _ \<Rightarrow> Some rest))"

definition load_catalog :: "world \<Rightarrow> io \<Rightarrow> io" where
  "load_catalog w s =
     (case getJiraAuth w of
        Inl e \<Rightarrow> s\<lparr>cachedFieldMap := Some []\<rparr>
      | Inr a \<Rightarrow>
          let h = calls s @ [CurlGet (server a @ ''/rest/api/2/field'') (token a)];
              s1 = s\<lparr>calls := h\<rparr>
          in case respond w h of
               Inl e \<Rightarrow> s1\<lparr>cachedFieldMap := Some []\<rparr>
             | Inr stdout \<Rightarrow>
                 (case JSON_parse w stdout of
                    Some (JArr fs) \<Rightarrow>
                      (case catalog_entries fs of
                         Some es \<Rightarrow> s1\<lparr>cachedFieldMap := Some es\<rparr>
                       | None \<Rightarrow> s1\<lparr>cachedFieldMap := Some []\<rparr>)
                  | _ \<Rightarrow> s1\<lparr>cachedFieldMap := Some []\<rparr>))"

definition resolveFieldId :: "world \<Rightarrow> string \<Rightarrow> io \<Rightarrow> string option \<times> io" where
  "resolveFieldId w fieldName s =
     (if truthy_opt (map_of FIELD_NAME_TO_ID fieldName) then (map_of FIELD_NAME_TO_ID fieldName, s)
      else
        let s1 = (case cachedFieldMap s of None \<Rightarrow> load_catalog w s | Some m \<Rightarrow> s)
        in (case cachedFieldMap s1 of
              None \<Rightarrow> (None, s1)
            | Some m \<Rightarrow> (map_of (rev m) fieldName, s1)))"

text \<open>\<open>obj[k] = v\<close> on an object kept as the list of its entries, in insertion order.\<close>

definition obj_set :: "(string \<times> 'v) list \<Rightarrow> string \<Rightarrow> 'v \<Rightarrow> (string \<times> 'v) list" where
  "obj_set obj k v =
     (if k \<in> fst ` set obj then map (\<lambda>(k', v'). if k' = k then (k', v) else (k', v')) obj
      else obj @ [(k, v)])"

text \<open>The loop of \<open>setIssueCustomFields\<close> that resolves every field name to its id.\<close>

fun resolve_all ::
  "world \<Rightarrow> (string \<times> string) list \<Rightarrow> (string \<times> string) list \<Rightarrow> io
   \<Rightarrow> (string \<times> string) list result \<times> io" where
  "resolve_all w [] fieldData s = (Inr fieldData, s)"
| "resolve_all w ((nm, v) # rest) fieldData s =
     (case resolveFieldId w nm s of
        (i, s1) \<Rightarrow>
          (case truthy_val i of
             None \<Rightarrow> (Inl (''Could not resolve Jira field ID for '' @ [CHR 0x22] @ nm
                              @ [CHR 0x22] @ ''.''), s1)
           | Some fid \<Rightarrow> resolve_all w rest (obj_set fieldData fid v) s1))"

definition join_lines :: "string list \<Rightarrow> string" where
  "join_lines ls = (case ls of [] \<Rightarrow> [] | l # rest \<Rightarrow> l @ concat (map (\<lambda>x. CHR 0x0A # x) rest))"

text \<open>The body of the update: \<open>{ fields: fieldData }\<close>.\<close>

definition update_body :: "(string \<times> string) list \<Rightarrow> json" where
  "update_body fieldData = JObj [(''fields'', JObj (map (\<lambda>(k, v). (k, JStr v)) fieldData))]"

definition setIssueCustomFields ::
  "world \<Rightarrow> string \<Rightarrow> (string \<times> string) list \<Rightarrow> io \<Rightarrow> unit result \<times> io" where
  "setIssueCustomFields w ticketKey fields' s =
     (case getJiraAuth w of
        Inl e \<Rightarrow> (Inl e, s)
      | Inr a \<Rightarrow>
          (case resolve_all w fields' [] s of
             (Inl e, s1) \<Rightarrow> (Inl e, s1)
           | (Inr fieldData, s1) \<Rightarrow>
               let h = calls s1 @ [CurlPut (server a @ ''/rest/api/2/issue/'' @ ticketKey) (token a)
                                     (update_body fieldData)];
                   s2 = s1\<lparr>calls := h\<rparr>
               in case respond w h of
                    Inl e \<Rightarrow> (Inl e, s2)
                  | Inr stdout \<Rightarrow>
                      let lines = split_on (CHR 0x0A) (trim stdout);
                          httpCode = trim (last lines)
                      in if \<not> startsWith httpCode ''2''
                         then (Inl (''Failed to update fields (HTTP '' @ httpCode @ ''): ''
                                      @ slice0 400 (join_lines (butlast lines))), s2)
                         else (Inr (), s2)))"

record fill_result =
  filled :: "string list"
  stillMissing :: "string list"

definition autoFillDevDates :: "world \<Rightarrow> string \<Rightarrow> io \<Rightarrow> fill_result result \<times> io" where
  "autoFillDevDates w ticketKey s =
     (let allIds = [id' devStartDate, id' devDueDate, id' plannedStart, id' plannedDue]
      in case getIssueRawFields w ticketKey allIds s of
           (Inl e, s1) \<Rightarrow> (Inl e, s1)
         | (Inr raw, s1) \<Rightarrow>
             let (toFill1, filled1, stillMissing1) =
                   (if \<not> truthy_opt (raw_at raw (id' devStartDate))
                    then (case truthy_val (raw_at raw (id' plannedStart)) of
                            Some planned \<Rightarrow>
                              ([(name devStartDate, planned)], [name devStartDate], [])
                          | None \<Rightarrow> ([], [], [name devStartDate]))
                    else ([], [], []));
                 (toFill, filled, stillMissing) =
                   (if \<not> truthy_opt (raw_at raw (id' devDueDate))
                    then (case truthy_val (raw_at raw (id' plannedDue)) of
                            Some planned \<Rightarrow>
                              (obj_set toFill1 (name devDueDate) planned,
                               filled1 @ [name devDueDate], stillMissing1)
                          | None \<Rightarrow> (toFill1, filled1, stillMissing1 @ [name devDueDate]))
                    else (toFill1, filled1, stillMissing1))
             in if length toFill > 0
                then (case setIssueCustomFields w ticketKey toFill s1 of
                        (Inl e, s2) \<Rightarrow> (Inl e, s2)
                      | (Inr _, s2) \<Rightarrow>
                          (Inr \<lparr> filled = filled, stillMissing = stillMissing \<rparr>, s2))
                else (Inr \<lparr> filled = filled, stillMissing = stillMissing \<rparr>, s1))"

text \<open>Whether a command is an update of the tracker that sets the field \<open>fid\<close>.\<close>

definition writes_field :: "command \<Rightarrow> string \<Rightarrow> bool" where
  "writes_field c fid =
     (case c of
        CurlPut url tok body \<Rightarrow>
          (case js_get body ''fields'' of
             Some (JObj kvs) \<Rightarrow> fid \<in> fst ` set kvs
           | _ \<Rightarrow> False)
      | _ \<Rightarrow> False)"

definition is_update :: "command \<Rightarrow> bool" where
  "is_update c = (case c of CurlPut url tok body \<Rightarrow> True | _ \<Rightarrow> False)"

text \<open>The commands that a run from the state \<open>s\<close> to the state \<open>s'\<close> has issued.\<close>

definition issued :: "io \<Rightarrow> io \<Rightarrow> command list" where
  "issued s s' = drop (length (calls s)) (calls s')"

text \<open>
  The policy of the auto-filler in the words of its specification, evaluated for each
  managed pair of a target field and its planned counterpart: a target that holds a
  value is skipped; else the value of the planned field, if it holds one, is copied;
  else the target is still missing.
\<close>

definition managed_pairs :: "(FieldRef \<times> FieldRef) list" where
  "managed_pairs = [(devStartDate, plannedStart), (devDueDate, plannedDue)]"

definition holds_value :: "(string \<times> string option) list \<Rightarrow> FieldRef \<Rightarrow> bool" where
  "holds_value raw f = truthy_opt (raw_at raw (id' f))"

definition policy_fill :: "(string \<times> string option) list \<Rightarrow> (FieldRef \<times> string) list" where
  "policy_fill raw =
     concat (map (\<lambda>(t, p).
        if holds_value raw t then []
        else (case truthy_val (raw_at raw (id' p)) of Some v \<Rightarrow> [(t, v)] | None \<Rightarrow> []))
       managed_pairs)"

definition policy_missing :: "(string \<times> string option) list \<Rightarrow> string list" where
  "policy_missing raw =
     concat (map (\<lambda>(t, p).
        if holds_value raw t \<or> holds_value raw p then [] else [name t]) managed_pairs)"

text \<open>The update that writes the fields \<open>fs\<close> of the issue \<open>ticketKey\<close> in one request.\<close>

definition batched_update :: "auth \<Rightarrow> string \<Rightarrow> (FieldRef \<times> string) list \<Rightarrow> command" where
  "batched_update a ticketKey fs =
     CurlPut (server a @ ''/rest/api/2/issue/'' @ ticketKey) (token a)
       (update_body (map (\<lambda>(t, v). (id' t, v)) fs))"

text \<open>Whether the answer to an update ends with a status line that starts with 2.\<close>

definition accepted :: "string \<Rightarrow> bool" where
  "accepted stdout = startsWith (trim (last (split_on (CHR 0x0A) (trim stdout)))) ''2''"

definition allIds :: "string list" where
  "allIds = [id' devStartDate, id' devDueDate, id' plannedStart, id' plannedDue]"

section \<open>Role auto-assignment\<close>

datatype role = Qa | Reviewer

definition ROLE_STATUS_MAP :: "(string \<times> role) list" where
  "ROLE_STATUS_MAP = [(''TESTING'', Qa), (''1ST REVIEW'', Reviewer), (''2ND REVIEW'', Reviewer)]"

definition ROLE_FIELD_NAMES :: "role \<Rightarrow> string" where
  "ROLE_FIELD_NAMES r = (case r of Qa \<Rightarrow> ''QA'' | Reviewer \<Rightarrow> ''Development Reviewer'')"

definition getRoleAssignee :: "world \<Rightarrow> role \<Rightarrow> string" where
  "getRoleAssignee w r =
     trim (case r of Qa \<Rightarrow> qaAssignee (prefs w) | Reviewer \<Rightarrow> reviewerAssignee (prefs w))"

text \<open>A user of the tracker, its fields as they come out of the parsed answer.\<close>

record JiraUser =
  accountId :: "json option"
  name' :: "json option"
  displayName :: json
  emailAddress :: "json option"

text \<open>JavaScript's truthiness of a parsed value, and the value when it is a string.\<close>

definition js_truthy :: "json option \<Rightarrow> bool" where
  "js_truthy v =
     (case v of
        None \<Rightarrow> False
      | Some JNull \<Rightarrow> False
      | Some (JBool b) \<Rightarrow> b
      | Some (JNum n) \<Rightarrow> n \<noteq> 0
      | Some (JStr x) \<Rightarrow> x \<noteq> []
      | Some _ \<Rightarrow> True)"

definition as_string :: "json option \<Rightarrow> json option" where
  "as_string v = (case v of Some (JStr x) \<Rightarrow> Some (JStr x) | _ \<Rightarrow> None)"

text \<open>\<open>a ?? b\<close> on parsed values: \<open>b\<close> when \<open>a\<close> is \<open>null\<close> or \<open>undefined\<close>.\<close>

definition nullish_or :: "json option \<Rightarrow> json option \<Rightarrow> json option" where
  "nullish_or x y = (case x of None \<Rightarrow> y | Some JNull \<Rightarrow> y | Some v \<Rightarrow> Some v)"

definition getIssueFieldUser ::
  "world \<Rightarrow> string \<Rightarrow> string \<Rightarrow> io \<Rightarrow> JiraUser option result \<times> io" where
  "getIssueFieldUser w ticketKey fieldName s =
     (case resolveFieldId w fieldName s of
        (i, s1) \<Rightarrow>
          (case truthy_val i of
             None \<Rightarrow> (Inr None, s1)
           | Some fieldId \<Rightarrow>
               (case runJira w (view_args ticketKey) s1 of
                  (Inl e, s2) \<Rightarrow> (Inl e, s2)
                | (Inr stdout, s2) \<Rightarrow>
                    (case JSON_parse w stdout of
                       None \<Rightarrow> (Inr None, s2)
                     | Some parsed \<Rightarrow>
                         (case (case js_get parsed ''fields'' of
                                  None \<Rightarrow> None | Some f \<Rightarrow> js_get f fieldId) of
                            Some (JObj user) \<Rightarrow>
                              let u = JObj user
                              in if \<not> js_truthy (js_get u ''accountId'')
                                    \<and> \<not> js_truthy (js_get u ''name'')
                                    \<and> \<not> js_truthy (js_get u ''key'')
                                 then (Inr None, s2)
                                 else (Inr (Some
                                   \<lparr> accountId = as_string (js_get u ''accountId''),
                                     name' = (case as_string (js_get u ''name'') of
                                                Some n \<Rightarrow> Some n
                                              | None \<Rightarrow> as_string (js_get u ''key'')),
                                     displayName =
                                       (case as_string (js_get u ''displayName'') of
                                          Some d \<Rightarrow> d
                                        | None \<Rightarrow>
                                            (case as_string (js_get u ''name'') of
                                               Some n \<Rightarrow> n
                                             | None \<Rightarrow>
                                                 (case as_string (js_get u ''accountId'') of
                                                    Some i \<Rightarrow> i | None \<Rightarrow> JStr ''''))),
                                     emailAddress = as_string (js_get u ''emailAddress'') \<rparr>),
                                   s2)
                          | _ \<Rightarrow> (Inr None, s2))))))"

definition assignIssue :: "world \<Rightarrow> string \<Rightarrow> JiraUser \<Rightarrow> io \<Rightarrow> unit result \<times> io" where
  "assignIssue w ticketKey user s =
     (case getJiraAuth w of
        Inl e \<Rightarrow> (Inl e, s)
      | Inr a \<Rightarrow>
          let body = (if js_truthy (name' user)
                      then JObj [(''name'', case name' user of Some n \<Rightarrow> n | None \<Rightarrow> JNull)]
                      else (case accountId user of
                              None \<Rightarrow> JObj []
                            | Some i \<Rightarrow> JObj [(''accountId'', i)]));
              h = calls s @ [CurlPut (server a @ ''/rest/api/2/issue/'' @ ticketKey @ ''/assignee'')
                               (token a) body];
              s1 = s\<lparr>calls := h\<rparr>
          in case respond w h of
               Inl e \<Rightarrow> (Inl e, s1)
             | Inr stdout \<Rightarrow>
                 let lines = split_on (CHR 0x0A) (trim stdout);
                     httpCode = trim (last lines)
                 in if \<not> startsWith httpCode ''2''
                    then (Inl (''Failed to assign issue (HTTP '' @ httpCode @ ''): ''
                                 @ slice0 400 (join_lines (butlast lines))), s1)
                    else (Inr (), s1))"

text \<open>
  The users of an answer: an entry without account id, name and key is left out, and
  reading a \<open>null\<close> entry throws.
\<close>

fun users_of :: "json list \<Rightarrow> JiraUser list result" where
  "users_of [] = Inr []"
| "users_of (JNull # us) = Inl ''Cannot read properties of null (reading 'accountId')''"
| "users_of (u # us) =
     (case users_of us of
        Inl e \<Rightarrow> Inl e
      | Inr rest \<Rightarrow>
          if js_truthy (js_get u ''accountId'') \<or> js_truthy (js_get u ''name'')
             \<or> js_truthy (js_get u ''key'')
          then Inr (\<lparr> accountId = js_get u ''accountId'',
                       name' = nullish_or (js_get u ''name'') (js_get u ''key''),
                       displayName =
                         (case nullish_or (js_get u ''displayName'')
                                 (nullish_or (js_get u ''name'') (js_get u ''accountId'')) of
                            None \<Rightarrow> JStr '''' | Some JNull \<Rightarrow> JStr '''' | Some d \<Rightarrow> d),
                       emailAddress = js_get u ''emailAddress'' \<rparr> # rest)
          else Inr rest)"

definition fetchJiraUsers :: "world \<Rightarrow> string \<Rightarrow> string \<Rightarrow> io \<Rightarrow> JiraUser list result \<times> io" where
  "fetchJiraUsers w url tok s =
     (let h = calls s @ [CurlGet url tok];
          s1 = s\<lparr>calls := h\<rparr>
      in case respond w h of
           Inl e \<Rightarrow> (Inl e, s1)
         | Inr stdout \<Rightarrow>
             (case JSON_parse w stdout of
                Some (JArr us) \<Rightarrow> (users_of us, s1)
              | _ \<Rightarrow> (Inr [], s1)))"

definition searchJiraUser :: "world \<Rightarrow> string \<Rightarrow> io \<Rightarrow> JiraUser list result \<times> io" where
  "searchJiraUser w query s =
     (case getJiraAuth w of
        Inl e \<Rightarrow> (Inl e, s)
      | Inr a \<Rightarrow>
          let encoded = encodeURIComponent w query
          in case fetchJiraUsers w
                    (server a @ ''/rest/api/2/user/search?username='' @ encoded @ ''&maxResults=10'')
                    (token a) s of
               (Inl e, s1) \<Rightarrow> (Inl e, s1)
             | (Inr serverResults, s1) \<Rightarrow>
                 if length serverResults > 0 then (Inr serverResults, s1)
                 else fetchJiraUsers w
                        (server a @ ''/rest/api/2/user/search?query='' @ encoded @ ''&maxResults=10'')
                        (token a) s1)"

record assign_result =
  assigned :: bool
  assignedName :: "json option"

definition autoAssignForStatus ::
  "world \<Rightarrow> string \<Rightarrow> string \<Rightarrow> io \<Rightarrow> assign_result result \<times> io" where
  "autoAssignForStatus w ticketKey targetStatus s =
     (case map_of ROLE_STATUS_MAP (normalizeStatus targetStatus) of
        None \<Rightarrow> (Inr \<lparr> assigned = False, assignedName = None \<rparr>, s)
      | Some r \<Rightarrow>
          (case getIssueFieldUser w ticketKey (ROLE_FIELD_NAMES r) s of
             (Inl e, s1) \<Rightarrow> (Inl e, s1)
           | (Inr (Some fieldUser), s1) \<Rightarrow>
               (case assignIssue w ticketKey fieldUser s1 of
                  (Inl e, s2) \<Rightarrow> (Inl e, s2)
                | (Inr u, s2) \<Rightarrow>
                    (Inr \<lparr> assigned = True, assignedName = Some (displayName fieldUser) \<rparr>, s2))
           | (Inr None, s1) \<Rightarrow>
               let email = getRoleAssignee w r
               in if \<not> truthy email then (Inr \<lparr> assigned = False, assignedName = None \<rparr>, s1)
                  else (case searchJiraUser w email s1 of
                          (Inl e, s2) \<Rightarrow> (Inl e, s2)
                        | (Inr [], s2) \<Rightarrow> (Inr \<lparr> assigned = False, assignedName = None \<rparr>, s2)
                        | (Inr (user # users), s2) \<Rightarrow>
                            (case assignIssue w ticketKey user s2 of
                               (Inl e, s3) \<Rightarrow> (Inl e, s3)
                             | (Inr u, s3) \<Rightarrow>
                                 (Inr \<lparr> assigned = True,
                                        assignedName = Some (displayName user) \<rparr>, s3)))))"

section \<open>Missing fields in a rejection\<close>

definition is_word :: "char \<Rightarrow> bool" where
  "is_word c =
     (let n = (of_char c :: nat)
      in (48 \<le> n \<and> n \<le> 57) \<or> (65 \<le> n \<and> n \<le> 90) \<or> n = 95 \<or> (97 \<le> n \<and> n \<le> 122))"

text \<open>The pattern \<open>fill in (.+)\<close> at the start of a string, without regard to case.\<close>

definition fill_in_at :: "string \<Rightarrow> string option" where
  "fill_in_at s =
     (if toUpperCase (take 8 s) = ''FILL IN ''
      then (let g = takeWhile (\<lambda>c. \<not> is_line_end c) (drop 8 s)
            in if g = [] then None else Some g)
      else None)"

text \<open>The pattern \<open>/(?:please )?fill in (.+)/i\<close> at the start of a string.\<close>

definition match_fill_in_at :: "string \<Rightarrow> string option" where
  "match_fill_in_at s =
     (if toUpperCase (take 7 s) = ''PLEASE ''
      then (case fill_in_at (drop 7 s) of Some g \<Rightarrow> Some g | None \<Rightarrow> fill_in_at s)
      else fill_in_at s)"

fun exec_fill_in :: "string \<Rightarrow> string option" where
  "exec_fill_in [] = None"
| "exec_fill_in (c # cs) =
     (case match_fill_in_at (c # cs) of
        Some g \<Rightarrow> Some g
      | None \<Rightarrow> exec_fill_in cs)"

text \<open>
  \<open>s.split(/[,;]|\band\b/i)\<close>: the pieces between commas, semicolons and the word
  \<open>and\<close>. \<open>pw\<close> tells whether the character before the current one is a word character.
\<close>

function split_fields :: "bool \<Rightarrow> string \<Rightarrow> string \<Rightarrow> string list" where
  "split_fields pw acc [] = [rev acc]"
| "split_fields pw acc (c # cs) =
     (if c = CHR '','' \<or> c = CHR '';'' then rev acc # split_fields False [] cs
      else if \<not> pw \<and> toUpperCase (take 3 (c # cs)) = ''AND''
              \<and> (case drop 2 cs of [] \<Rightarrow> True | d # ds \<Rightarrow> \<not> is_word d)
      then rev acc # split_fields True [] (drop 2 cs)
      else split_fields (is_word c) (c # acc) cs)"
  by pat_completeness auto
termination
  by (relation "measure (\<lambda>(pw, acc, s). length s)") auto

text \<open>\<open>s.replace(/\.+$/, "")\<close>: the dots at the end are removed.\<close>

definition strip_trailing_dots :: "string \<Rightarrow> string" where
  "strip_trailing_dots s = rev (dropWhile (\<lambda>c. c = CHR ''.'') (rev s))"

definition parseMissingFieldsFromError :: "string \<Rightarrow> string list" where
  "parseMissingFieldsFromError errorMsg =
     (case exec_fill_in errorMsg of
        None \<Rightarrow> []
      | Some g \<Rightarrow>
          filter truthy (map (\<lambda>s. strip_trailing_dots (trim s)) (split_fields False [] g)))"

section \<open>The views\<close>

record JiraIssue =
  key :: string
  summary :: string
  status :: string
  assignee :: string
  priority :: string
  type :: string

datatype TransitionState =
    Phase_idle
  | Phase_running string "string list" nat
  | Phase_done
  | Phase_error string "string list" string

datatype ToastStyle = Animated | Success | Failure

record Toast =
  style :: ToastStyle
  title :: string
  message :: string
  hidden :: bool

text \<open>
  What a form does when its fields have been saved: the closure \<open>onComplete\<close>, kept as
  the name of the function it calls and the issue it has captured.
\<close>

datatype continuation =
    Resume_runTransitionLoop JiraIssue
  | Resume_moveToDone JiraIssue
  | Resume_doTransitions JiraIssue

record MissingFieldsForm =
  issueKey :: string
  missingFields :: "string list"
  onComplete :: continuation
  submitting :: bool

text \<open>
  The state of the views: the issue and the progress of the move-to-done view, the issues
  of the status board, the toasts shown, and the forms pushed on the navigation stack,
  the latest first.
\<close>

record app =
  issue :: "JiraIssue option"
  transition :: TransitionState
  issues :: "JiraIssue list"
  toasts :: "Toast list"
  nav :: "MissingFieldsForm list"

definition showToast :: "ToastStyle \<Rightarrow> string \<Rightarrow> string \<Rightarrow> app \<Rightarrow> app" where
  "showToast st ti msg a =
     a\<lparr>toasts := toasts a @ [\<lparr> style = st, title = ti, message = msg, hidden = False \<rparr>]\<rparr>"

text \<open>A change of the toast shown last, which is the one a function holds.\<close>

definition upd_toast :: "(Toast \<Rightarrow> Toast) \<Rightarrow> app \<Rightarrow> app" where
  "upd_toast f a =
     a\<lparr>toasts := (case rev (toasts a) of [] \<Rightarrow> [] | t # ts \<Rightarrow> rev (f t # ts))\<rparr>"

definition push_form :: "string \<Rightarrow> string list \<Rightarrow> continuation \<Rightarrow> app \<Rightarrow> app" where
  "push_form k fs c a =
     a\<lparr>nav := \<lparr> issueKey = k, missingFields = fs, onComplete = c, submitting = False \<rparr> # nav a\<rparr>"

text \<open>\<open>setIssue((prev) => (prev ? { ...prev, status: st } : prev))\<close>\<close>

definition setIssueStatus :: "string \<Rightarrow> app \<Rightarrow> app" where
  "setIssueStatus st a = a\<lparr>issue := map_option (\<lambda>i. i\<lparr>status := st\<rparr>) (issue a)\<rparr>"

definition sleep :: "nat \<Rightarrow> io \<Rightarrow> io" where
  "sleep ms s = s\<lparr>calls := calls s @ [Sleep ms]\<rparr>"

text \<open>The arrow U+2192 and the ellipsis U+2026 of the messages.\<close>

definition arrow :: string where
  "arrow = '' '' @ [CHR 0xE2, CHR 0x86, CHR 0x92] @ '' ''"

definition ellipsis :: string where
  "ellipsis = [CHR 0xE2, CHR 0x80, CHR 0xA6]"

section \<open>Move to done\<close>

text \<open>
  The variables of the loop of \<open>runTransitionLoop\<close>, with the state of the views and of
  the process. One pass of the loop body goes on to the next step, leaves the loop by
  \<open>break\<close>, or returns from the function.
\<close>

record chain =
  completedSteps :: "string list"
  currentStatus :: string
  view :: app
  proc :: io

datatype 'v pass = Continue 'v | Break 'v | Return 'v

definition step_label :: "WorkflowStep \<Rightarrow> string" where
  "step_label step = emoji step @ '' '' @ WorkflowStep.status step"

text \<open>The loop body; \<open>abortRef.current\<close> is read from the world.\<close>

definition loop_body :: "world \<Rightarrow> JiraIssue \<Rightarrow> nat \<Rightarrow> WorkflowStep \<Rightarrow> chain \<Rightarrow> chain pass" where
  "loop_body w issueData totalSteps step v =
     (if unmounted w (calls (proc v)) then Break v
      else
        let a1 = (view v)\<lparr>transition := Phase_running
                      (currentStatus v @ arrow @ WorkflowStep.status step)
                      (completedSteps v) totalSteps\<rparr>;
            a2 = showToast Animated (''Transitioning '' @ key issueData)
                   (currentStatus v @ arrow @ WorkflowStep.status step) a1
        in case transitionIssue w (key issueData) (WorkflowStep.status step) (proc v) of
             (Inr u, s1) \<Rightarrow>
               let completed = completedSteps v @ [step_label step];
                   a3 = upd_toast (\<lambda>t. t\<lparr>style := Success,
                                          title := ''Done: '' @ WorkflowStep.status step,
                                          message := (if length completed < totalSteps
                                                      then ''Continuing'' @ ellipsis
                                                      else ''All done!'')\<rparr>) a2;
                   s2 = (if length completed < totalSteps then sleep 600 s1 else s1)
               in Continue \<lparr> completedSteps = completed,
                             currentStatus = WorkflowStep.status step,
                             view = a3, proc = s2 \<rparr>
           | (Inl msg, s1) \<Rightarrow>
               let a3 = upd_toast (\<lambda>t. t\<lparr>style := Failure, title := ''Transition failed''\<rparr>) a2;
                   a4 = setIssueStatus (currentStatus v) a3;
                   missing = parseMissingFieldsFromError msg
               in if length missing > 0
                  then Return (v\<lparr>view :=
                         push_form (key issueData) missing
                           (Resume_runTransitionLoop (issueData\<lparr>status := currentStatus v\<rparr>))
                           (upd_toast (\<lambda>t. t\<lparr>hidden := True\<rparr>) a4),
                         proc := s1\<rparr>)
                  else Return (v\<lparr>view :=
                         (upd_toast (\<lambda>t. t\<lparr>message := msg\<rparr>) a4)
                           \<lparr>transition := Phase_error (WorkflowStep.status step)
                                             (completedSteps v) msg\<rparr>,
                         proc := s1\<rparr>))"

fun transition_loop ::
  "world \<Rightarrow> JiraIssue \<Rightarrow> nat \<Rightarrow> WorkflowStep list \<Rightarrow> chain \<Rightarrow> chain pass" where
  "transition_loop w issueData totalSteps [] v = Break v"
| "transition_loop w issueData totalSteps (step # steps) v =
     (case loop_body w issueData totalSteps step v of
        Continue v1 \<Rightarrow> transition_loop w issueData totalSteps steps v1
      | Break v1 \<Rightarrow> Break v1
      | Return v1 \<Rightarrow> Return v1)"

definition runTransitionLoop :: "world \<Rightarrow> JiraIssue \<Rightarrow> app \<Rightarrow> io \<Rightarrow> app \<times> io" where
  "runTransitionLoop w issueData a s =
     (case getRemainingSteps (status issueData) of
        [] \<Rightarrow> ((setIssueStatus ''Done'' a)\<lparr>transition := Phase_done\<rparr>, s)
      | first # others \<Rightarrow>
          let remaining = first # others;
              a1 = a\<lparr>transition := Phase_running
                         (status issueData @ arrow @ WorkflowStep.status first) []
                         (length remaining)\<rparr>
          in case transition_loop w issueData (length remaining) remaining
                    \<lparr> completedSteps = [], currentStatus = status issueData,
                      view = a1, proc = s \<rparr> of
               Return v \<Rightarrow> (view v, proc v)
             | Break v \<Rightarrow> ((setIssueStatus ''Done'' (view v))\<lparr>transition := Phase_done\<rparr>, proc v)
             | Continue v \<Rightarrow> ((setIssueStatus ''Done'' (view v))\<lparr>transition := Phase_done\<rparr>, proc v))"

text \<open>
  The loop variables after the steps \<open>steps\<close> have all been passed, one after the other;
  \<open>None\<close> when one of them is not passed.
\<close>

fun passed :: "world \<Rightarrow> JiraIssue \<Rightarrow> nat \<Rightarrow> WorkflowStep list \<Rightarrow> chain \<Rightarrow> chain option" where
  "passed w issueData totalSteps [] v = Some v"
| "passed w issueData totalSteps (step # steps) v =
     (case loop_body w issueData totalSteps step v of
        Continue v1 \<Rightarrow> passed w issueData totalSteps steps v1
      | _ \<Rightarrow> None)"

text \<open>The stage an issue is at after the steps \<open>pre\<close>, starting from the status \<open>st\<close>.\<close>

definition reached :: "string \<Rightarrow> WorkflowStep list \<Rightarrow> string" where
  "reached st pre = (case rev pre of [] \<Rightarrow> st | x # xs \<Rightarrow> WorkflowStep.status x)"

section \<open>The status board\<close>

function string_of_nat :: "nat \<Rightarrow> string" where
  "string_of_nat n =
     (if n < 10 then [char_of (48 + n)]
      else string_of_nat (n div 10) @ [char_of (48 + n mod 10)])"
  by pat_completeness auto
termination
  by (relation "measure (\<lambda>n. n)") auto

declare string_of_nat.simps [simp del]

definition join_with :: "string \<Rightarrow> string list \<Rightarrow> string" where
  "join_with sep xs = (case xs of [] \<Rightarrow> [] | x # rest \<Rightarrow> x @ concat (map (\<lambda>y. sep @ y) rest))"

text \<open>The variables of the loop of \<open>doTransitions\<close>, with the state of the views and the process.\<close>

record board_chain =
  current :: string
  board :: app
  process :: io

text \<open>
  \<open>setIssues((prev) => prev.map((i) => (i.key === k ? { ...i, status: st } : i)))\<close>
\<close>

definition setBoardStatus :: "string \<Rightarrow> string \<Rightarrow> app \<Rightarrow> app" where
  "setBoardStatus k st a =
     a\<lparr>issues := map (\<lambda>i. if key i = k then i\<lparr>status := st\<rparr> else i) (issues a)\<rparr>"

text \<open>
  The body of the loop of \<open>doTransitions\<close>. The role is assigned at best effort: what
  \<open>autoAssignForStatus\<close> returns or throws is dropped.
\<close>

definition board_body :: "world \<Rightarrow> JiraIssue \<Rightarrow> WorkflowStep \<Rightarrow> board_chain \<Rightarrow> board_chain pass" where
  "board_body w issue0 step v =
     (case transitionIssue w (key issue0) (WorkflowStep.status step) (process v) of
        (Inr u, s1) \<Rightarrow>
          let s2 = snd (autoAssignForStatus w (key issue0) (WorkflowStep.status step) s1)
          in Continue \<lparr> current = WorkflowStep.status step, board = board v,
                        process = sleep 600 s2 \<rparr>
      | (Inl msg, s1) \<Rightarrow>
          let a1 = upd_toast (\<lambda>t. t\<lparr>style := Failure,
                                     title := ''Failed at '' @ WorkflowStep.status step\<rparr>) (board v);
              a2 = setBoardStatus (key issue0) (current v) a1;
              missing = parseMissingFieldsFromError msg
          in if length missing > 0
             then Return (v\<lparr>board :=
                    push_form (key issue0) missing
                      (Resume_moveToDone (issue0\<lparr>status := current v\<rparr>))
                      (upd_toast (\<lambda>t. t\<lparr>hidden := True\<rparr>) a2),
                    process := s1\<rparr>)
             else Return (v\<lparr>board := upd_toast (\<lambda>t. t\<lparr>message := msg\<rparr>) a2, process := s1\<rparr>))"

fun board_loop :: "world \<Rightarrow> JiraIssue \<Rightarrow> WorkflowStep list \<Rightarrow> board_chain \<Rightarrow> board_chain pass" where
  "board_loop w issue0 [] v = Break v"
| "board_loop w issue0 (step # steps) v =
     (case board_body w issue0 step v of
        Continue v1 \<Rightarrow> board_loop w issue0 steps v1
      | Break v1 \<Rightarrow> Break v1
      | Return v1 \<Rightarrow> Return v1)"

definition board_done :: "JiraIssue \<Rightarrow> board_chain \<Rightarrow> app \<times> io" where
  "board_done issue0 v =
     (upd_toast (\<lambda>t. t\<lparr>style := Success, title := key issue0 @ '' is Done!'',
                        message := ''Removed from board''\<rparr>)
        ((board v)\<lparr>issues := filter (\<lambda>i. key i \<noteq> key issue0) (issues (board v))\<rparr>),
      process v)"

definition doTransitions :: "world \<Rightarrow> JiraIssue \<Rightarrow> app \<Rightarrow> io \<Rightarrow> app \<times> io" where
  "doTransitions w issue0 a s =
     (let remaining = getRemainingSteps (status issue0);
          a1 = showToast Animated (''Moving '' @ key issue0 @ '' to Done'')
                 (string_of_nat (length remaining) @ '' transitions'' @ ellipsis) a
      in case board_loop w issue0 remaining
                \<lparr> current = status issue0, board = a1, process = s \<rparr> of
           Return v \<Rightarrow> (board v, process v)
         | Break v \<Rightarrow> board_done issue0 v
         | Continue v \<Rightarrow> board_done issue0 v)"

text \<open>
  \<open>ensureDevDatesAndRun\<close>: \<open>action\<close> is the function to run, \<open>k\<close> its name for the form
  that is pushed when fields are still missing.
\<close>

definition ensureDevDatesAndRun ::
  "world \<Rightarrow> string \<Rightarrow> continuation \<Rightarrow> (app \<Rightarrow> io \<Rightarrow> app \<times> io) \<Rightarrow> app \<Rightarrow> io \<Rightarrow> app \<times> io" where
  "ensureDevDatesAndRun w ticketKey k action a s =
     (let a1 = showToast Animated (''Checking required fields'' @ ellipsis) [] a
      in case autoFillDevDates w ticketKey s of
           (Inr res, s1) \<Rightarrow>
             let a2 = (if length (filled res) > 0
                       then upd_toast (\<lambda>t. t\<lparr>title := ''Auto-filled dates'',
                                              message := join_with '', '' (filled res)\<rparr>) a1
                       else a1);
                 a3 = upd_toast (\<lambda>t. t\<lparr>hidden := True\<rparr>) a2
             in if length (stillMissing res) > 0
                then (push_form ticketKey (stillMissing res) k a3, s1)
                else action a3 s1
         | (Inl e, s1) \<Rightarrow>
             action (upd_toast (\<lambda>t. t\<lparr>style := Failure,
                                       title := ''Auto-fill failed, continuing'' @ ellipsis,
                                       message := e\<rparr>) a1) s1)"

definition moveToDone :: "world \<Rightarrow> JiraIssue \<Rightarrow> app \<Rightarrow> io \<Rightarrow> app \<times> io" where
  "moveToDone w issue0 a s =
     (let remaining = getRemainingSteps (status issue0)
      in if length remaining = 0 then (a, s)
         else ensureDevDatesAndRun w (key issue0) (Resume_doTransitions issue0)
                (doTransitions w issue0) a s)"

text \<open>The loop variables of the board after the steps \<open>steps\<close> have all been passed.\<close>

fun board_passed :: "world \<Rightarrow> JiraIssue \<Rightarrow> WorkflowStep list \<Rightarrow> board_chain \<Rightarrow> board_chain option" where
  "board_passed w issue0 [] v = Some v"
| "board_passed w issue0 (step # steps) v =
     (case board_body w issue0 step v of
        Continue v1 \<Rightarrow> board_passed w issue0 steps v1
      | _ \<Rightarrow> None)"

section \<open>The form for missing fields\<close>

text \<open>What a form field holds when the form is submitted.\<close>

datatype form_value = DateValue nat nat nat | TextValue string | NoValue

definition padStart2 :: "string \<Rightarrow> string" where
  "padStart2 s = replicate (2 - length s) (CHR ''0'') @ s"

text \<open>\<open>formatDate\<close>, for a date given by its year, its month counted from 0, and its day.\<close>

definition formatDate :: "nat \<Rightarrow> nat \<Rightarrow> nat \<Rightarrow> string" where
  "formatDate y m d =
     string_of_nat y @ ''-'' @ padStart2 (string_of_nat (m + 1)) @ ''-''
       @ padStart2 (string_of_nat d)"

text \<open>\<open>name.replaceAll(/\s+/g, "_")\<close>\<close>

function ws_to_underscore :: "string \<Rightarrow> string" where
  "ws_to_underscore [] = []"
| "ws_to_underscore (c # cs) =
     (if is_space c then CHR ''_'' # ws_to_underscore (dropWhile is_space cs)
      else c # ws_to_underscore cs)"
  by pat_completeness auto
termination
  by (relation "measure length") (auto simp: length_dropWhile_le less_Suc_eq_le)

text \<open>The loop of \<open>handleSubmit\<close> that collects the values given for the missing fields.\<close>

fun collect_fields ::
  "(string \<times> form_value) list \<Rightarrow> string list \<Rightarrow> (string \<times> string) list
   \<Rightarrow> (string \<times> string) list" where
  "collect_fields values [] acc = acc"
| "collect_fields values (nm # nms) acc =
     (case map_of values (ws_to_underscore nm) of
        Some (DateValue y m d) \<Rightarrow> collect_fields values nms (obj_set acc nm (formatDate y m d))
      | Some (TextValue x) \<Rightarrow>
          if truthy (trim x) then collect_fields values nms (obj_set acc nm (trim x))
          else collect_fields values nms acc
      | _ \<Rightarrow> collect_fields values nms acc)"

definition run_continuation :: "world \<Rightarrow> continuation \<Rightarrow> app \<Rightarrow> io \<Rightarrow> app \<times> io" where
  "run_continuation w c a s =
     (case c of
        Resume_runTransitionLoop i \<Rightarrow> runTransitionLoop w i a s
      | Resume_moveToDone i \<Rightarrow> moveToDone w i a s
      | Resume_doTransitions i \<Rightarrow> doTransitions w i a s)"

definition set_submitting :: "bool \<Rightarrow> app \<Rightarrow> app" where
  "set_submitting b a =
     a\<lparr>nav := (case nav a of [] \<Rightarrow> [] | f # fs \<Rightarrow> f\<lparr>submitting := b\<rparr> # fs)\<rparr>"

text \<open>\<open>handleSubmit\<close> of the form on top of the navigation stack.\<close>

definition handleSubmit :: "world \<Rightarrow> (string \<times> form_value) list \<Rightarrow> app \<Rightarrow> io \<Rightarrow> app \<times> io" where
  "handleSubmit w values a s =
     (case nav a of
        [] \<Rightarrow> (a, s)
      | form # below \<Rightarrow>
          let a1 = set_submitting True a;
              fields' = collect_fields values (missingFields form) []
          in if length fields' = 0
             then (set_submitting False (showToast Failure ''No values provided'' [] a1), s)
             else
               let a2 = showToast Animated (''Setting fields'' @ ellipsis) [] a1
               in case setIssueCustomFields w (issueKey form) fields' s of
                    (Inr u, s1) \<Rightarrow>
                      let a3 = upd_toast (\<lambda>t. t\<lparr>style := Success, title := ''Fields updated'',
                                   message := join_with '', ''
                                     (map (\<lambda>(k, v). k @ '': '' @ v) fields')\<rparr>) a2;
                          a4 = a3\<lparr>nav := below\<rparr>
                      in run_continuation w (onComplete form) a4 s1
                  | (Inl e, s1) \<Rightarrow>
                      (set_submitting False
                         (upd_toast (\<lambda>t. t\<lparr>style := Failure, title := ''Failed to set fields'',
                                            message := e\<rparr>) a2), s1))"

section \<open>Commands issued\<close>

text \<open>The state \<open>s'\<close> comes after \<open>s\<close>: the commands run up to \<open>s\<close> are the first ones of \<open>s'\<close>.\<close>

definition grows :: "io \<Rightarrow> io \<Rightarrow> bool" where
  "grows s s' = (take (length (calls s)) (calls s') = calls s)"

text \<open>The loop variables a pass of a loop body ends with.\<close>

definition pass_val :: "'v pass \<Rightarrow> 'v" where
  "pass_val p = (case p of Continue v \<Rightarrow> v | Break v \<Rightarrow> v | Return v \<Rightarrow> v)"

section \<open>Example worlds\<close>

text \<open>
  Concrete worlds for the examples: no preference is set (the command line is \<open>jira\<close>),
  the view stays open, and the answers of the outside world are given by \<open>r\<close>.
\<close>

definition no_prefs :: Preferences where
  "no_prefs = \<lparr> jiraCliPath = '''', jiraProject = '''', jiraServer = '''', jiraApiToken = '''',
                commonAssignees = '''', qaAssignee = '''', reviewerAssignee = '''' \<rparr>"

definition example_world :: "(command list \<Rightarrow> string + string) \<Rightarrow> world" where
  "example_world r =
     \<lparr> prefs = no_prefs, respond = r, JSON_parse = (\<lambda>t. None),
       encodeURIComponent = (\<lambda>t. t), unmounted = (\<lambda>h. False) \<rparr>"

definition fresh_io :: io where
  "fresh_io = \<lparr> calls = [], cachedFieldMap = None \<rparr>"

text \<open>
  A tracker that rejects the transition named \<open>Doing\<close> and lists the labels it knows,
  one that rejects the transition named \<open>Waiting\<close> without listing anything, and one
  that rejects every transition.
\<close>

definition rejects_Doing :: "command list \<Rightarrow> string + string" where
  "rejects_Doing h =
     (if last h = Exec (''jira issue move AB-1 '' @ [CHR 0x22] @ ''Doing'' @ [CHR 0x22])
      then Inl (''Available states for issue AB-1: '' @ [CHR 0x27] @ ''Start Doing''
                  @ [CHR 0x27] @ '', '' @ [CHR 0x27] @ ''Cancel'' @ [CHR 0x27])
      else Inr ''ok'')"

definition rejects_Waiting :: "command list \<Rightarrow> string + string" where
  "rejects_Waiting h =
     (if last h = Exec (''jira issue move AB-1 '' @ [CHR 0x22] @ ''Waiting'' @ [CHR 0x22])
      then Inl ''no such transition''
      else Inr ''ok'')"

definition rejects_all :: "command list \<Rightarrow> string + string" where
  "rejects_all h = Inl ''rejected''"

text \<open>
  A tracker with its address and token configured, whose answer to \<open>issue view\<close> parses to
  the JSON value \<open>j\<close> and whose answer to an update is \<open>r\<close>.
\<close>

definition tracker_prefs :: Preferences where
  "tracker_prefs = no_prefs\<lparr> jiraServer := ''https://jira.example/'', jiraApiToken := ''secret'' \<rparr>"

definition fill_world :: "json \<Rightarrow> string + string \<Rightarrow> world" where
  "fill_world j r =
     \<lparr> prefs = tracker_prefs,
       respond = (\<lambda>h. case last h of CurlPut u t b \<Rightarrow> r | _ \<Rightarrow> Inr ''{}''),
       JSON_parse = (\<lambda>t. Some j),
       encodeURIComponent = (\<lambda>t. t),
       unmounted = (\<lambda>h. False) \<rparr>"

text \<open>An issue with both dev dates set, and one whose start date is to be filled.\<close>

definition issue_dated :: json where
  "issue_dated =
     JObj [(''fields'', JObj [(''customfield_11516'', JStr ''2024-01-01''),
                              (''customfield_10304'', JStr ''2024-01-31''),
                              (''customfield_11520'', JStr ''2024-02-02''),
                              (''customfield_11509'', JNull)])]"

definition issue_planned :: json where
  "issue_planned =
     JObj [(''fields'', JObj [(''customfield_11516'', JNull),
                              (''customfield_10304'', JStr ''2024-01-31''),
                              (''customfield_11520'', JStr ''2024-02-02''),
                              (''customfield_11509'', JNull)])]"

definition raw_dated :: "(string \<times> string option) list" where
  "raw_dated = [(''customfield_11516'', Some ''2024-01-01''), (''customfield_10304'', Some ''2024-01-31''),
                (''customfield_11520'', Some ''2024-02-02''), (''customfield_11509'', None)]"

definition raw_planned :: "(string \<times> string option) list" where
  "raw_planned = [(''customfield_11516'', None), (''customfield_10304'', Some ''2024-01-31''),
                  (''customfield_11520'', Some ''2024-02-02''), (''customfield_11509'', None)]"

definition viewed_io :: io where
  "viewed_io = \<lparr> calls = [Exec ''jira issue view AB-1 --raw''], cachedFieldMap = None \<rparr>"

definition tracker_auth :: auth where
  "tracker_auth = \<lparr> server = ''https://jira.example'', token = ''secret'' \<rparr>"

text \<open>
  A tracker that rejects the transition named \<open>t\<close> of the issue \<open>AB-1\<close> with the message
  \<open>m\<close> and accepts every other command; the issue \<open>AB-1\<close> at the status \<open>st\<close>; and the
  views that show it.
\<close>

definition rejects :: "string \<Rightarrow> string \<Rightarrow> command list \<Rightarrow> string + string" where
  "rejects t m h =
     (if last h = Exec (''jira issue move AB-1 '' @ [CHR 0x22] @ t @ [CHR 0x22])
      then Inl m else Inr ''{}'')"

definition issue_at :: "string \<Rightarrow> JiraIssue" where
  "issue_at st = \<lparr> key = ''AB-1'', summary = ''Fix'', status = st, assignee = '''',
                   priority = '''', type = ''Task'' \<rparr>"

definition board_of :: "string \<Rightarrow> app" where
  "board_of st = \<lparr> issue = None, transition = Phase_idle,
                   issues = [issue_at st], toasts = [], nav = [] \<rparr>"

definition views_of :: "string \<Rightarrow> app" where
  "views_of st = \<lparr> issue = Some (issue_at st), transition = Phase_idle,
                   issues = [issue_at st], toasts = [], nav = [] \<rparr>"

text \<open>The rejection of a transition that lists the labels the tracker knows for it.\<close>

definition lists_Start_Delivering :: string where
  "lists_Start_Delivering =
     ''Available states for issue AB-1: '' @ [CHR 0x27] @ ''Start Delivering'' @ [CHR 0x27]
       @ '', '' @ [CHR 0x27] @ ''Cancel'' @ [CHR 0x27]"

text \<open>
  A tracker that rejects the transition named \<open>Done\<close> of the issue \<open>AB-1\<close> for a missing
  field \<open>Brand\<close> as long as no update has been made, and accepts every other command. Its
  field catalog knows the field \<open>Brand\<close>, and the dev dates of the issue are set.
  \<open>brand_asked\<close> is the state of the process when a chain from \<open>Regression\<close> stops at
  that rejection, \<open>brand_given\<close> the state after the update that sets the field.
\<close>

definition brand_catalog :: json where
  "brand_catalog = JArr [JObj [(''name'', JStr ''Brand''), (''id'', JStr ''customfield_1'')]]"

definition asks_Brand :: "command list \<Rightarrow> string + string" where
  "asks_Brand h =
     (case last h of
        Exec c \<Rightarrow>
          if c = ''jira issue move AB-1 '' @ [CHR 0x22] @ ''Done'' @ [CHR 0x22]
             \<and> \<not> list_ex is_update h
          then Inl ''Error: please fill in Brand''
          else Inr ''{}''
      | CurlGet u t \<Rightarrow> Inr ''[]''
      | CurlPut u t b \<Rightarrow> Inr ''204''
      | Sleep n \<Rightarrow> Inr '''')"

definition brand_world :: world where
  "brand_world =
     \<lparr> prefs = tracker_prefs,
       respond = asks_Brand,
       JSON_parse = (\<lambda>t. if t = ''[]'' then Some brand_catalog else Some issue_dated),
       encodeURIComponent = (\<lambda>t. t),
       unmounted = (\<lambda>h. False) \<rparr>"

definition brand_asked :: io where
  "brand_asked =
     \<lparr> calls = [Exec (''jira issue move AB-1 '' @ [CHR 0x22] @ ''Delivering'' @ [CHR 0x22]),
                Sleep 600,
                Exec (''jira issue move AB-1 '' @ [CHR 0x22] @ ''Done'' @ [CHR 0x22])],
       cachedFieldMap = None \<rparr>"

definition brand_given :: io where
  "brand_given =
     \<lparr> calls = calls brand_asked
                @ [CurlGet ''https://jira.example/rest/api/2/field'' ''secret'',
                   CurlPut ''https://jira.example/rest/api/2/issue/AB-1'' ''secret''
                     (JObj [(''fields'', JObj [(''customfield_1'', JStr ''Acme'')])])],
       cachedFieldMap = Some [(''Brand'', ''customfield_1'')] \<rparr>"

section \<open>Facts about strings\<close>



lemma char_eq_char_of_iff: "(c = char_of (n::nat)) = (take_bit 8 n = of_char c)"
  by (metis char_of_eq_iff)

lemmas str_ev = toUpperCase_def trim_def trimEnd_def trimStart_def is_space_def upper_char_def
  startsWith_def endsWith_def truthy_def Let_def char_of_eq_iff char_eq_char_of_iff
lemmas wf_ev = getWorkflowIndex_def getRemainingSteps_def WORKFLOW_def mkStep_def
  normalizeStatus_def STATUS_ALIASES_def

section \<open>Status normalization\<close>


section \<open>Remaining steps\<close>

lemma findIndex_bounds: "- 1 \<le> findIndex p xs \<and> findIndex p xs < int (length xs)"
  by (induction xs) (auto simp: Let_def)

text \<open>
  Claim C8. For a status that resolves to a stage, the number of remaining steps is the
  number of stages minus the stage's index minus one; nothing remains after \<open>Done\<close>;
  and a status that resolves to no stage has no remaining steps.
\<close>

theorem remaining_length:
  "(getWorkflowIndex s \<noteq> - 1 \<longrightarrow>
      int (length (getRemainingSteps s)) = int (length WORKFLOW) - getWorkflowIndex s - 1)
   \<and> getRemainingSteps ''Done'' = []
   \<and> (getWorkflowIndex s = - 1 \<longrightarrow> getRemainingSteps s = [])"
proof -
  have b: "- 1 \<le> getWorkflowIndex s \<and> getWorkflowIndex s < int (length WORKFLOW)"
    unfolding getWorkflowIndex_def by (rule findIndex_bounds)
  have 1: "getWorkflowIndex s \<noteq> - 1 \<longrightarrow>
      int (length (getRemainingSteps s)) = int (length WORKFLOW) - getWorkflowIndex s - 1"
    using b by (auto simp: getRemainingSteps_def Let_def)
  have 2: "getRemainingSteps ''Done'' = []" by (simp add: wf_ev str_ev)
  have 3: "getWorkflowIndex s = - 1 \<longrightarrow> getRemainingSteps s = []"
    by (simp add: getRemainingSteps_def)
  from 1 2 3 show ?thesis by blast
qed

theorem remaining_length_witness:
  "getWorkflowIndex ''to do'' \<noteq> - 1 \<and> length (getRemainingSteps ''to do'') = 10
   \<and> getWorkflowIndex ''Blocked'' = - 1 \<and> getRemainingSteps ''Blocked'' = []"
proof -
  have a: "getWorkflowIndex ''to do'' = 0" by (simp add: wf_ev str_ev)
  have l: "length WORKFLOW = 11" by (simp add: WORKFLOW_def)
  have c: "getWorkflowIndex ''Blocked'' = - 1" by (simp add: wf_ev str_ev)
  show ?thesis
    using remaining_length [of "''to do''"] remaining_length [of "''Blocked''"] a l c by simp
qed

section \<open>The transition resolver\<close>



text \<open>The labels read from a rejection text are never empty.\<close>

lemma parseAvailableTransitions_truthy: "[] \<notin> set (parseAvailableTransitions msg)"
  by (auto simp: parseAvailableTransitions_def truthy_def split: option.splits)




section \<open>One transition attempt\<close>

lemma includes_str_iff: "includes_str s p = (\<exists>pre post. s = pre @ p @ post)"
proof (induction s)
  case Nil
  then show ?case by auto
next
  case (Cons c cs)
  show ?case
  proof
    assume "includes_str (c # cs) p"
    then consider "startsWith (c # cs) p" | "includes_str cs p" by auto
    then show "\<exists>pre post. c # cs = pre @ p @ post"
    proof cases
      case 1
      then have "c # cs = [] @ p @ drop (length p) (c # cs)"
        unfolding startsWith_def by (metis append_Nil append_take_drop_id)
      then show ?thesis by blast
    next
      case 2
      with Cons obtain pre post where "cs = pre @ p @ post" by blast
      then have "c # cs = (c # pre) @ p @ post" by simp
      then show ?thesis by blast
    qed
  next
    assume "\<exists>pre post. c # cs = pre @ p @ post"
    then obtain pre post where e: "c # cs = pre @ p @ post" by blast
    show "includes_str (c # cs) p"
    proof (cases pre)
      case Nil
      with e have "startsWith (c # cs) p" by (simp add: startsWith_def)
      then show ?thesis by simp
    next
      case (Cons a pre')
      with e have "cs = pre' @ p @ post" by simp
      with Cons.IH have "includes_str cs p" by blast
      then show ?thesis by simp
    qed
  qed
qed

lemma mentions_failure_iff:
  "mentions_failure out =
     (\<exists>pre wd post. wd \<in> {''ERROR'', ''FAILED'', ''INVALID''} \<and> toUpperCase out = pre @ wd @ post)"
  unfolding mentions_failure_def Let_def includes_str_iff by blast

lemma runJira_snd:
  "snd (runJira w args s) = s\<lparr>calls := calls s @ [Exec (getJiraCliPath w @ '' '' @ args)]\<rparr>"
  by (simp add: runJira_def Let_def split: sum.splits)

lemma tryMove_snd: "snd (tryMove w k n s) = s\<lparr>calls := calls s @ [move_cmd w k n]\<rparr>"
  using runJira_snd [of w "move_args k n" s]
  by (auto simp: tryMove_def move_cmd_def split: prod.splits sum.splits)

lemma tryMove_calls: "calls (snd (tryMove w k n s)) = calls s @ [move_cmd w k n]"
  by (simp add: tryMove_snd)

text \<open>
  Claim C10. When the command of a transition attempt exits successfully, the attempt
  is still reported as failed whenever its standard output contains one of the words
  error, failed, invalid (in any case) and does not contain the check mark; an output
  without any of these words is taken as success. Either way the attempt runs that one
  command and nothing else: the resulting status is not read back.
\<close>

theorem tryMove_reads_output:
  assumes "respond w (calls s @ [move_cmd w k n]) = Inr out"
  shows "((\<exists>pre wd post. wd \<in> {''ERROR'', ''FAILED'', ''INVALID''}
                          \<and> toUpperCase out = pre @ wd @ post)
          \<and> \<not> (\<exists>pre post. out = pre @ check_mark @ post)
          \<longrightarrow> (\<exists>e. fst (tryMove w k n s) = Inl e))
       \<and> (\<not> (\<exists>pre wd post. wd \<in> {''ERROR'', ''FAILED'', ''INVALID''}
                            \<and> toUpperCase out = pre @ wd @ post)
          \<longrightarrow> fst (tryMove w k n s) = Inr ())
       \<and> calls (snd (tryMove w k n s)) = calls s @ [move_cmd w k n]"
proof -
  have r: "runJira w (move_args k n) s = (Inr out, s\<lparr>calls := calls s @ [move_cmd w k n]\<rparr>)"
    using assms by (simp add: runJira_def move_cmd_def Let_def)
  have 1: "mentions_failure out \<and> \<not> includes_str out check_mark
           \<longrightarrow> (\<exists>e. fst (tryMove w k n s) = Inl e)"
    by (simp add: tryMove_def r)
  have 2: "\<not> mentions_failure out \<longrightarrow> fst (tryMove w k n s) = Inr ()"
    by (simp add: tryMove_def r)
  from 1 2 show ?thesis
    unfolding mentions_failure_iff includes_str_iff by (simp add: tryMove_calls)
qed

theorem tryMove_reads_output_witness:
  "(\<exists>e. fst (tryMove (example_world (\<lambda>h. Inr ''Error: transition is Invalid''))
              ''AB-1'' ''Doing'' fresh_io) = Inl e)
   \<and> fst (tryMove (example_world (\<lambda>h. Inr ''moved'')) ''AB-1'' ''Doing'' fresh_io) = Inr ()"
proof -
  let ?w1 = "example_world (\<lambda>h. Inr ''Error: transition is Invalid'')"
  let ?w2 = "example_world (\<lambda>h. Inr ''moved'')"
  have a: "respond ?w1 (calls fresh_io @ [move_cmd ?w1 ''AB-1'' ''Doing''])
           = Inr ''Error: transition is Invalid''"
    by (simp add: example_world_def)
  have m: "mentions_failure ''Error: transition is Invalid''"
    by (simp add: mentions_failure_def str_ev)
  have c: "\<not> includes_str ''Error: transition is Invalid'' check_mark"
    by (simp add: check_mark_def str_ev)
  have b: "respond ?w2 (calls fresh_io @ [move_cmd ?w2 ''AB-1'' ''Doing'']) = Inr ''moved''"
    by (simp add: example_world_def)
  have n: "\<not> mentions_failure ''moved''"
    by (simp add: mentions_failure_def str_ev)
  show ?thesis
    using tryMove_reads_output [OF a] tryMove_reads_output [OF b] m c n
    unfolding mentions_failure_iff includes_str_iff by blast
qed

section \<open>A single transition request\<close>

lemma findMatchingTransition_truthy:
  "truthy_val (findMatchingTransition t a) = findMatchingTransition t a"
  by (simp add: truthy_val_def findMatchingTransition_def Let_def)

lemma tryFallbacks_trace:
  "\<exists>n\<le>length fs.
      snd (tryFallbacks w k fs s) = s\<lparr>calls := calls s @ map (move_cmd w k) (take n fs)\<rparr>
    \<and> (fst (tryFallbacks w k fs s) \<longrightarrow> 0 < n
         \<and> fst (tryMove w k (fs ! (n - 1))
                  (s\<lparr>calls := calls s @ map (move_cmd w k) (take (n - 1) fs)\<rparr>)) = Inr ())
    \<and> (\<not> fst (tryFallbacks w k fs s) \<longrightarrow> n = length fs)
    \<and> (\<forall>i<n. i + 1 < n \<or> \<not> fst (tryFallbacks w k fs s) \<longrightarrow>
          fst (tryMove w k (fs ! i)
                  (s\<lparr>calls := calls s @ map (move_cmd w k) (take i fs)\<rparr>)) \<noteq> Inr ())"
proof (induction fs arbitrary: s)
  case Nil
  then show ?case by simp
next
  case (Cons f fs)
  obtain r1 s1 where t: "tryMove w k f s = (r1, s1)" by (cases "tryMove w k f s")
  have s1: "s1 = s\<lparr>calls := calls s @ [move_cmd w k f]\<rparr>"
    using tryMove_snd [of w k f s] t by simp
  show ?case
  proof (cases r1)
    case (Inr u)
    then have "tryFallbacks w k (f # fs) s = (True, s1)" using t by simp
    then show ?thesis using s1 t Inr
      by (intro exI [of _ 1]) simp
  next
    case (Inl e)
    then have eq: "tryFallbacks w k (f # fs) s = tryFallbacks w k fs s1" using t by simp
    from Cons.IH [of s1] obtain n where n: "n \<le> length fs"
      and a: "snd (tryFallbacks w k fs s1) = s1\<lparr>calls := calls s1 @ map (move_cmd w k) (take n fs)\<rparr>"
      and b: "fst (tryFallbacks w k fs s1) \<longrightarrow> 0 < n
         \<and> fst (tryMove w k (fs ! (n - 1))
                  (s1\<lparr>calls := calls s1 @ map (move_cmd w k) (take (n - 1) fs)\<rparr>)) = Inr ()"
      and c: "\<not> fst (tryFallbacks w k fs s1) \<longrightarrow> n = length fs"
      and d: "\<forall>i<n. i + 1 < n \<or> \<not> fst (tryFallbacks w k fs s1) \<longrightarrow>
          fst (tryMove w k (fs ! i)
                  (s1\<lparr>calls := calls s1 @ map (move_cmd w k) (take i fs)\<rparr>)) \<noteq> Inr ()"
      by blast
    have sh: "\<And>i. s1\<lparr>calls := calls s1 @ map (move_cmd w k) (take i fs)\<rparr>
                 = s\<lparr>calls := calls s @ map (move_cmd w k) (take (Suc i) (f # fs))\<rparr>"
      by (simp add: s1)
    have f0: "fst (tryMove w k f (s\<lparr>calls := calls s\<rparr>)) \<noteq> Inr ()"
      using t Inl by simp
    show ?thesis
    proof (intro exI [of _ "Suc n"] conjI)
      show "Suc n \<le> length (f # fs)" using n by simp
      show "snd (tryFallbacks w k (f # fs) s)
            = s\<lparr>calls := calls s @ map (move_cmd w k) (take (Suc n) (f # fs))\<rparr>"
        using a sh eq by simp
      show "fst (tryFallbacks w k (f # fs) s) \<longrightarrow> 0 < Suc n
         \<and> fst (tryMove w k ((f # fs) ! (Suc n - 1))
                  (s\<lparr>calls := calls s @ map (move_cmd w k) (take (Suc n - 1) (f # fs))\<rparr>)) = Inr ()"
      proof
        assume "fst (tryFallbacks w k (f # fs) s)"
        with eq b have p: "0 < n" and q: "fst (tryMove w k (fs ! (n - 1))
                  (s1\<lparr>calls := calls s1 @ map (move_cmd w k) (take (n - 1) fs)\<rparr>)) = Inr ()"
          by simp_all
        from p obtain m where m: "n = Suc m" by (cases n) auto
        with q sh [of m] show "0 < Suc n
         \<and> fst (tryMove w k ((f # fs) ! (Suc n - 1))
                  (s\<lparr>calls := calls s @ map (move_cmd w k) (take (Suc n - 1) (f # fs))\<rparr>)) = Inr ()"
          by simp
      qed
      show "\<not> fst (tryFallbacks w k (f # fs) s) \<longrightarrow> Suc n = length (f # fs)"
        using c eq by simp
      show "\<forall>i<Suc n. i + 1 < Suc n \<or> \<not> fst (tryFallbacks w k (f # fs) s) \<longrightarrow>
          fst (tryMove w k ((f # fs) ! i)
                  (s\<lparr>calls := calls s @ map (move_cmd w k) (take i (f # fs))\<rparr>)) \<noteq> Inr ()"
      proof (intro allI impI)
        fix i assume i: "i < Suc n"
          and h: "i + 1 < Suc n \<or> \<not> fst (tryFallbacks w k (f # fs) s)"
        show "fst (tryMove w k ((f # fs) ! i)
                  (s\<lparr>calls := calls s @ map (move_cmd w k) (take i (f # fs))\<rparr>)) \<noteq> Inr ()"
        proof (cases i)
          case 0
          then show ?thesis using f0 by simp
        next
          case (Suc j)
          with i h eq have "j < n" and "j + 1 < n \<or> \<not> fst (tryFallbacks w k fs s1)" by auto
          with d have "fst (tryMove w k (fs ! j)
                  (s1\<lparr>calls := calls s1 @ map (move_cmd w k) (take j fs)\<rparr>)) \<noteq> Inr ()" by blast
          with sh [of j] Suc show ?thesis by simp
        qed
      qed
    qed
  qed
qed
lemma tryFallbacks_attempts:
  "\<exists>n\<le>length fs.
      calls (snd (tryFallbacks w k fs s)) = calls s @ map (move_cmd w k) (take n fs)
    \<and> (\<forall>i<n. i + 1 < n \<longrightarrow> alias_attempt w k fs s i \<noteq> Inr ())
    \<and> ((0 < n \<and> alias_attempt w k fs s (n - 1) = Inr () \<and> fst (tryFallbacks w k fs s))
        \<or> (n = length fs \<and> (\<forall>i<n. alias_attempt w k fs s i \<noteq> Inr ())
            \<and> \<not> fst (tryFallbacks w k fs s)))"
proof -
  from tryFallbacks_trace [of fs w k s] obtain n where n: "n \<le> length fs"
    and a: "snd (tryFallbacks w k fs s) = s\<lparr>calls := calls s @ map (move_cmd w k) (take n fs)\<rparr>"
    and b: "fst (tryFallbacks w k fs s) \<longrightarrow> 0 < n \<and> alias_attempt w k fs s (n - 1) = Inr ()"
    and c: "\<not> fst (tryFallbacks w k fs s) \<longrightarrow> n = length fs"
    and d: "\<forall>i<n. i + 1 < n \<or> \<not> fst (tryFallbacks w k fs s) \<longrightarrow>
              alias_attempt w k fs s i \<noteq> Inr ()"
    unfolding alias_attempt_def by blast
  have "calls (snd (tryFallbacks w k fs s)) = calls s @ map (move_cmd w k) (take n fs)"
    by (simp add: a)
  with n b c d show ?thesis by blast
qed

text \<open>
  Claim C4. A transition request first attempts the transition under the target name.
  If that succeeds, nothing else is run. If it is rejected and the resolver finds a label
  in the rejection text, the request is retried under that label exactly once, and the
  outcome of that retry is the outcome of the request. Otherwise the aliases configured
  for the target are tried in their order, each after the one before it failed, until
  one succeeds; when every alias fails, the request fails with the error of the first
  attempt.
\<close>

theorem transitionIssue_protocol:
  assumes "fs = (case map_of STATUS_FALLBACKS (toUpperCase t) of Some x \<Rightarrow> x | None \<Rightarrow> [])"
    and "s1 = snd (tryMove w k t s)"
  shows
    "calls s1 = calls s @ [move_cmd w k t]
   \<and> (fst (tryMove w k t s) = Inr () \<longrightarrow> transitionIssue w k t s = (Inr (), s1))
   \<and> (\<forall>e m. fst (tryMove w k t s) = Inl e
          \<and> findMatchingTransition t (parseAvailableTransitions e) = Some m \<longrightarrow>
          transitionIssue w k t s = tryMove w k m s1
          \<and> calls (snd (transitionIssue w k t s)) = calls s @ [move_cmd w k t, move_cmd w k m])
   \<and> (\<forall>e. fst (tryMove w k t s) = Inl e
          \<and> findMatchingTransition t (parseAvailableTransitions e) = None \<longrightarrow>
          (\<exists>n\<le>length fs.
              calls (snd (transitionIssue w k t s))
                = calls s @ move_cmd w k t # map (move_cmd w k) (take n fs)
            \<and> (\<forall>i<n. i + 1 < n \<longrightarrow> alias_attempt w k fs s1 i \<noteq> Inr ())
            \<and> ((0 < n \<and> alias_attempt w k fs s1 (n - 1) = Inr ()
                  \<and> fst (transitionIssue w k t s) = Inr ())
                \<or> (n = length fs \<and> (\<forall>i<n. alias_attempt w k fs s1 i \<noteq> Inr ())
                    \<and> fst (transitionIssue w k t s) = Inl e))))"
proof (intro conjI allI impI)
  show c1: "calls s1 = calls s @ [move_cmd w k t]"
    using assms(2) by (simp add: tryMove_calls)
  show "transitionIssue w k t s = (Inr (), s1)" if "fst (tryMove w k t s) = Inr ()"
    using that assms(2) by (cases "tryMove w k t s") (simp add: transitionIssue_def)
  show "transitionIssue w k t s = tryMove w k m s1"
    if "fst (tryMove w k t s) = Inl e
        \<and> findMatchingTransition t (parseAvailableTransitions e) = Some m" for e m
    using that assms(2) findMatchingTransition_truthy [of t "parseAvailableTransitions e"]
    by (cases "tryMove w k t s") (simp add: transitionIssue_def Let_def)
  then show "calls (snd (transitionIssue w k t s)) = calls s @ [move_cmd w k t, move_cmd w k m]"
    if "fst (tryMove w k t s) = Inl e
        \<and> findMatchingTransition t (parseAvailableTransitions e) = Some m" for e m
    using that c1 by (simp add: tryMove_calls)
  show "\<exists>n\<le>length fs.
              calls (snd (transitionIssue w k t s))
                = calls s @ move_cmd w k t # map (move_cmd w k) (take n fs)
            \<and> (\<forall>i<n. i + 1 < n \<longrightarrow> alias_attempt w k fs s1 i \<noteq> Inr ())
            \<and> ((0 < n \<and> alias_attempt w k fs s1 (n - 1) = Inr ()
                  \<and> fst (transitionIssue w k t s) = Inr ())
                \<or> (n = length fs \<and> (\<forall>i<n. alias_attempt w k fs s1 i \<noteq> Inr ())
                    \<and> fst (transitionIssue w k t s) = Inl e))"
    if h: "fst (tryMove w k t s) = Inl e
        \<and> findMatchingTransition t (parseAvailableTransitions e) = None" for e
  proof -
    have tm: "tryMove w k t s = (Inl e, s1)"
      using h assms(2) by (cases "tryMove w k t s") simp
    have r: "transitionIssue w k t s
             = (if fst (tryFallbacks w k fs s1) then Inr () else Inl e,
                snd (tryFallbacks w k fs s1))"
      using h assms(1) tm
      by (cases "tryFallbacks w k fs s1") (auto simp: transitionIssue_def Let_def truthy_val_def)
    from tryFallbacks_attempts [of fs w k s1] obtain n where n: "n \<le> length fs"
      and a: "calls (snd (tryFallbacks w k fs s1)) = calls s1 @ map (move_cmd w k) (take n fs)"
      and b: "\<forall>i<n. i + 1 < n \<longrightarrow> alias_attempt w k fs s1 i \<noteq> Inr ()"
      and c: "(0 < n \<and> alias_attempt w k fs s1 (n - 1) = Inr () \<and> fst (tryFallbacks w k fs s1))
        \<or> (n = length fs \<and> (\<forall>i<n. alias_attempt w k fs s1 i \<noteq> Inr ())
            \<and> \<not> fst (tryFallbacks w k fs s1))"
      by blast
    have "calls (snd (transitionIssue w k t s))
            = calls s @ move_cmd w k t # map (move_cmd w k) (take n fs)"
      using a c1 r by simp
    moreover have "(0 < n \<and> alias_attempt w k fs s1 (n - 1) = Inr ()
                  \<and> fst (transitionIssue w k t s) = Inr ())
                \<or> (n = length fs \<and> (\<forall>i<n. alias_attempt w k fs s1 i \<noteq> Inr ())
                    \<and> fst (transitionIssue w k t s) = Inl e)"
      using c r by auto
    ultimately show ?thesis using n b by blast
  qed
qed

lemmas move_ev = tryMove_def runJira_def getJiraCliPath_def move_args_def move_cmd_def
  example_world_def no_prefs_def fresh_io_def mentions_failure_def check_mark_def
  rejects_Doing_def rejects_Waiting_def rejects_all_def

lemmas parse_ev = parseAvailableTransitions_def match_available_at_def strip_quotes_def
  split_on_def is_line_end_def findMatchingTransition_def truthy_opt_def

lemma fallbacks_Waiting: "map_of STATUS_FALLBACKS (toUpperCase ''Waiting'') = Some [''TO DO'']"
  by (simp add: STATUS_FALLBACKS_def STATUS_ALIASES_def push_fallback_def str_ev)

lemma fallbacks_Doing: "map_of STATUS_FALLBACKS (toUpperCase ''Doing'') = None"
  by (simp add: STATUS_FALLBACKS_def STATUS_ALIASES_def push_fallback_def str_ev)

theorem transitionIssue_protocol_witness:
  "transitionIssue (example_world (\<lambda>h. Inr ''ok'')) ''AB-1'' ''Doing'' fresh_io
     = (Inr (), \<lparr>calls = [move_cmd (example_world (\<lambda>h. Inr ''ok'')) ''AB-1'' ''Doing''],
                 cachedFieldMap = None\<rparr>)
   \<and> fst (transitionIssue (example_world rejects_Doing) ''AB-1'' ''Doing'' fresh_io) = Inr ()
   \<and> calls (snd (transitionIssue (example_world rejects_Doing) ''AB-1'' ''Doing'' fresh_io))
       = [move_cmd (example_world rejects_Doing) ''AB-1'' ''Doing'',
          move_cmd (example_world rejects_Doing) ''AB-1'' ''Start Doing'']
   \<and> fst (transitionIssue (example_world rejects_Waiting) ''AB-1'' ''Waiting'' fresh_io) = Inr ()
   \<and> fst (transitionIssue (example_world rejects_all) ''AB-1'' ''Waiting'' fresh_io)
       = Inl ''jira CLI (exit 1): rejected''"
proof -
  let ?ok = "example_world (\<lambda>h. Inr ''ok'')"
  let ?wd = "example_world rejects_Doing"
  let ?ww = "example_world rejects_Waiting"
  let ?wa = "example_world rejects_all"
  let ?e = "''jira CLI (exit 1): Available states for issue AB-1: '' @ [CHR 0x27]
              @ ''Start Doing'' @ [CHR 0x27] @ '', '' @ [CHR 0x27] @ ''Cancel'' @ [CHR 0x27]"
  have fd: "[] = (case map_of STATUS_FALLBACKS (toUpperCase ''Doing'') of
                    Some x \<Rightarrow> x | None \<Rightarrow> [])"
    by (simp add: fallbacks_Doing)
  have fw: "[''TO DO''] = (case map_of STATUS_FALLBACKS (toUpperCase ''Waiting'') of
                    Some x \<Rightarrow> x | None \<Rightarrow> [])"
    by (simp add: fallbacks_Waiting)
  have ok1: "tryMove ?ok ''AB-1'' ''Doing'' fresh_io
             = (Inr (), \<lparr>calls = [move_cmd ?ok ''AB-1'' ''Doing''], cachedFieldMap = None\<rparr>)"
    by (simp add: move_ev str_ev)
  have A: "transitionIssue ?ok ''AB-1'' ''Doing'' fresh_io
     = (Inr (), \<lparr>calls = [move_cmd ?ok ''AB-1'' ''Doing''], cachedFieldMap = None\<rparr>)"
    using transitionIssue_protocol [OF fd refl, of ?ok "''AB-1''" fresh_io] ok1 by simp
  have d1: "fst (tryMove ?wd ''AB-1'' ''Doing'' fresh_io) = Inl ?e"
    by (simp add: move_ev str_ev)
  have d2: "findMatchingTransition ''Doing'' (parseAvailableTransitions ?e) = Some ''Start Doing''"
    by (simp add: parse_ev str_ev)
  have d3: "fst (tryMove ?wd ''AB-1'' ''Start Doing'' (snd (tryMove ?wd ''AB-1'' ''Doing'' fresh_io)))
            = Inr ()"
    by (simp add: move_ev str_ev)
  have B: "fst (transitionIssue ?wd ''AB-1'' ''Doing'' fresh_io) = Inr ()
     \<and> calls (snd (transitionIssue ?wd ''AB-1'' ''Doing'' fresh_io))
       = [move_cmd ?wd ''AB-1'' ''Doing'', move_cmd ?wd ''AB-1'' ''Start Doing'']"
  proof -
    from transitionIssue_protocol [OF fd refl, of ?wd "''AB-1''" fresh_io] d1 d2
    have t: "transitionIssue ?wd ''AB-1'' ''Doing'' fresh_io
               = tryMove ?wd ''AB-1'' ''Start Doing'' (snd (tryMove ?wd ''AB-1'' ''Doing'' fresh_io))"
      and c: "calls (snd (transitionIssue ?wd ''AB-1'' ''Doing'' fresh_io))
               = calls fresh_io @ [move_cmd ?wd ''AB-1'' ''Doing'',
                                   move_cmd ?wd ''AB-1'' ''Start Doing'']"
      by blast+
    from t d3 have "fst (transitionIssue ?wd ''AB-1'' ''Doing'' fresh_io) = Inr ()" by simp
    moreover from c have "calls (snd (transitionIssue ?wd ''AB-1'' ''Doing'' fresh_io))
       = [move_cmd ?wd ''AB-1'' ''Doing'', move_cmd ?wd ''AB-1'' ''Start Doing'']"
      by (simp add: fresh_io_def)
    ultimately show ?thesis by blast
  qed
  have w1: "fst (tryMove ?ww ''AB-1'' ''Waiting'' fresh_io)
            = Inl ''jira CLI (exit 1): no such transition''"
    by (simp add: move_ev str_ev)
  have w2: "findMatchingTransition ''Waiting''
              (parseAvailableTransitions ''jira CLI (exit 1): no such transition'') = None"
    by (simp add: parse_ev str_ev)
  have w3: "alias_attempt ?ww ''AB-1'' [''TO DO''] (snd (tryMove ?ww ''AB-1'' ''Waiting'' fresh_io)) 0
            = Inr ()"
    by (simp add: alias_attempt_def move_ev str_ev)
  have C: "fst (transitionIssue ?ww ''AB-1'' ''Waiting'' fresh_io) = Inr ()"
    using transitionIssue_protocol [OF fw refl, of ?ww "''AB-1''" fresh_io] w1 w2 w3
    by (auto simp: less_Suc_eq_le)
  have a1: "fst (tryMove ?wa ''AB-1'' ''Waiting'' fresh_io) = Inl ''jira CLI (exit 1): rejected''"
    by (simp add: move_ev str_ev)
  have a2: "findMatchingTransition ''Waiting''
              (parseAvailableTransitions ''jira CLI (exit 1): rejected'') = None"
    by (simp add: parse_ev str_ev)
  have a3: "alias_attempt ?wa ''AB-1'' [''TO DO''] (snd (tryMove ?wa ''AB-1'' ''Waiting'' fresh_io)) 0
            \<noteq> Inr ()"
    by (simp add: alias_attempt_def move_ev str_ev)
  have D: "fst (transitionIssue ?wa ''AB-1'' ''Waiting'' fresh_io)
            = Inl ''jira CLI (exit 1): rejected''"
    using transitionIssue_protocol [OF fw refl, of ?wa "''AB-1''" fresh_io] a1 a2 a3
    by (auto simp: less_Suc_eq_le)
  from A B C D show ?thesis by blast
qed

section \<open>The field auto-filler\<close>

lemmas field_ev = devStartDate_def devDueDate_def plannedStart_def plannedDue_def
  FIELD_NAME_TO_ID_def

lemma getIssueRawFields_snd:
  "snd (getIssueRawFields w k ids s) = s\<lparr>calls := calls s @ [Exec (getJiraCliPath w @ '' '' @ view_args k)]\<rparr>"
  using runJira_snd [of w "view_args k" s]
  by (cases "runJira w (view_args k) s")
     (auto simp: getIssueRawFields_def Let_def split: sum.splits option.splits)

lemma resolveFieldId_static:
  "resolveFieldId w (name devStartDate) s = (Some (id' devStartDate), s)"
  "resolveFieldId w (name devDueDate) s = (Some (id' devDueDate), s)"
  by (simp_all add: resolveFieldId_def truthy_opt_def truthy_def field_ev)

lemma resolve_all_policy:
  "resolve_all w (map (\<lambda>(t, v). (name t, v)) (policy_fill raw)) [] s
   = (Inr (map (\<lambda>(t, v). (id' t, v)) (policy_fill raw)), s)"
proof -
  have ne: "id' devStartDate \<noteq> id' devDueDate" "id' devDueDate \<noteq> id' devStartDate"
    by (simp_all add: field_ev)
  have tv: "truthy_val (Some (id' devStartDate)) = Some (id' devStartDate)"
           "truthy_val (Some (id' devDueDate)) = Some (id' devDueDate)"
    by (simp_all add: truthy_val_def truthy_opt_def truthy_def field_ev)
  show ?thesis
    by (simp add: policy_fill_def managed_pairs_def resolveFieldId_static tv obj_set_def ne
             split: option.splits)
qed

lemma setIssueCustomFields_policy:
  "setIssueCustomFields w k (map (\<lambda>(t, v). (name t, v)) (policy_fill raw)) s
   = (case getJiraAuth w of
        Inl e \<Rightarrow> (Inl e, s)
      | Inr a \<Rightarrow>
          (case respond w (calls s @ [batched_update a k (policy_fill raw)]) of
             Inl e \<Rightarrow> (Inl e, s\<lparr>calls := calls s @ [batched_update a k (policy_fill raw)]\<rparr>)
           | Inr out \<Rightarrow>
               (if accepted out then Inr ()
                else Inl (''Failed to update fields (HTTP ''
                           @ trim (last (split_on (CHR 0x0A) (trim out))) @ ''): ''
                           @ slice0 400 (join_lines (butlast (split_on (CHR 0x0A) (trim out))))),
                s\<lparr>calls := calls s @ [batched_update a k (policy_fill raw)]\<rparr>)))"
  by (simp add: setIssueCustomFields_def resolve_all_policy batched_update_def accepted_def
                Let_def split: sum.splits)

lemma autoFillDevDates_policy:
  assumes "getIssueRawFields w k allIds s = (Inr raw, s1)"
  shows "autoFillDevDates w k s
   = (if policy_fill raw = []
      then (Inr \<lparr> filled = [], stillMissing = policy_missing raw \<rparr>, s1)
      else (case setIssueCustomFields w k (map (\<lambda>(t, v). (name t, v)) (policy_fill raw)) s1 of
              (Inl e, s2) \<Rightarrow> (Inl e, s2)
            | (Inr u, s2) \<Rightarrow>
                (Inr \<lparr> filled = map (\<lambda>(t, v). name t) (policy_fill raw),
                       stillMissing = policy_missing raw \<rparr>, s2)))"
proof -
  have ne: "name devStartDate \<noteq> name devDueDate" "name devDueDate \<noteq> name devStartDate"
    by (simp_all add: field_ev)
  have r: "getIssueRawFields w k
             [id' devStartDate, id' devDueDate, id' plannedStart, id' plannedDue] s = (Inr raw, s1)"
    using assms by (simp add: allIds_def)
  have tv: "\<And>x. truthy_opt x = (truthy_val x \<noteq> None)"
    by (simp add: truthy_val_def truthy_opt_def split: option.splits)
  show ?thesis
    unfolding autoFillDevDates_def Let_def r policy_fill_def policy_missing_def
      managed_pairs_def holds_value_def tv
    by (simp add: obj_set_def ne split: option.splits prod.splits sum.splits)
qed

lemma autoFillDevDates_outcome:
  assumes "getIssueRawFields w k allIds s = (Inr raw, s1)"
  shows "autoFillDevDates w k s
   = (if policy_fill raw = []
      then (Inr \<lparr> filled = [], stillMissing = policy_missing raw \<rparr>, s1)
      else (case getJiraAuth w of
              Inl e \<Rightarrow> (Inl e, s1)
            | Inr a \<Rightarrow>
                (case respond w (calls s1 @ [batched_update a k (policy_fill raw)]) of
                   Inl e \<Rightarrow> Inl e
                 | Inr out \<Rightarrow>
                     if accepted out
                     then Inr \<lparr> filled = map (\<lambda>(t, v). name t) (policy_fill raw),
                                stillMissing = policy_missing raw \<rparr>
                     else Inl (''Failed to update fields (HTTP ''
                           @ trim (last (split_on (CHR 0x0A) (trim out))) @ ''): ''
                           @ slice0 400 (join_lines (butlast (split_on (CHR 0x0A) (trim out))))),
                 s1\<lparr>calls := calls s1 @ [batched_update a k (policy_fill raw)]\<rparr>)))"
  unfolding autoFillDevDates_policy [OF assms] setIssueCustomFields_policy
  by (simp split: sum.splits)

lemma read_state:
  assumes "getIssueRawFields w k ids s = (r, s1)"
  shows "s1 = s\<lparr>calls := calls s @ [Exec (getJiraCliPath w @ '' '' @ view_args k)]\<rparr>"
  using getIssueRawFields_snd [of w k ids s] assms by simp

lemma update_body_keys:
  "fst ` set (map (\<lambda>(k, v). (k, JStr v)) (map (\<lambda>(t, v). (id' t, v)) fs))
   = (\<lambda>(t, v). id' t) ` set fs"
  by (induction fs) auto

lemma writes_field_batched:
  "writes_field (batched_update a k fs) i = (i \<in> (\<lambda>(t, v). id' t) ` set fs)"
proof -
  have "js_get (update_body (map (\<lambda>(t, v). (id' t, v)) fs)) ''fields''
        = Some (JObj (map (\<lambda>(k, v). (k, JStr v)) (map (\<lambda>(t, v). (id' t, v)) fs)))"
    by (simp add: update_body_def js_get_def)
  then show ?thesis
    unfolding writes_field_def batched_update_def
    by (simp only: command.case option.case json.case update_body_keys)
qed

lemma policy_fill_targets:
  "(t, v) \<in> set (policy_fill raw) \<Longrightarrow>
     (t = devStartDate \<or> t = devDueDate) \<and> \<not> holds_value raw t"
  by (auto simp: policy_fill_def managed_pairs_def split: if_splits option.splits)

lemma policy_missing_targets:
  "n \<in> set (policy_missing raw) \<Longrightarrow>
     (n = name devStartDate \<and> \<not> holds_value raw devStartDate)
   \<or> (n = name devDueDate \<and> \<not> holds_value raw devDueDate)"
  by (auto simp: policy_missing_def managed_pairs_def split: if_splits)

lemma target_distinct:
  "name devStartDate \<noteq> name devDueDate" "id' devStartDate \<noteq> id' devDueDate"
  by (simp_all add: field_ev)

text \<open>
  Claim C6. When the fields of an issue have been read and a managed target field holds
  a value there, the auto-filler reports that field neither as filled nor as still
  missing, and no update it issues sets that field. When both \<open>Dev Start Date\<close> and
  \<open>Dev Due Date\<close> hold a value, it returns empty lists and issues no update at all.
\<close>

theorem autoFill_keeps_existing:
  assumes "getIssueRawFields w k allIds s = (Inr raw, s1)"
    and "(t, p) \<in> set managed_pairs"
    and "holds_value raw t"
  shows "(\<forall>res. fst (autoFillDevDates w k s) = Inr res \<longrightarrow>
            name t \<notin> set (filled res) \<and> name t \<notin> set (stillMissing res))
       \<and> (\<forall>c \<in> set (issued s (snd (autoFillDevDates w k s))). \<not> writes_field c (id' t))
       \<and> (holds_value raw devStartDate \<and> holds_value raw devDueDate \<longrightarrow>
            autoFillDevDates w k s = (Inr \<lparr> filled = [], stillMissing = [] \<rparr>, s1)
            \<and> (\<forall>c \<in> set (issued s s1). \<not> is_update c))"
proof -
  let ?view = "Exec (getJiraCliPath w @ '' '' @ view_args k)"
  have s1: "s1 = s\<lparr>calls := calls s @ [?view]\<rparr>"
    using assms(1) by (rule read_state)
  have tt: "t = devStartDate \<or> t = devDueDate"
    using assms(2) by (auto simp: managed_pairs_def)
  have nf: "name t \<notin> (\<lambda>(t, v). name t) ` set (policy_fill raw)"
    using assms(3) tt target_distinct by (auto dest!: policy_fill_targets)
  have ni: "id' t \<notin> (\<lambda>(t, v). id' t) ` set (policy_fill raw)"
    using assms(3) tt target_distinct by (auto dest!: policy_fill_targets)
  have nm: "name t \<notin> set (policy_missing raw)"
    using assms(3) tt target_distinct by (auto dest!: policy_missing_targets)
  have nv: "\<not> writes_field ?view (id' t)"
    by (simp add: writes_field_def)
  have 1: "\<forall>res. fst (autoFillDevDates w k s) = Inr res \<longrightarrow>
            name t \<notin> set (filled res) \<and> name t \<notin> set (stillMissing res)"
    unfolding autoFillDevDates_outcome [OF assms(1)] using nf nm
    by (auto split: sum.splits if_splits)
  have 2: "\<forall>c \<in> set (issued s (snd (autoFillDevDates w k s))). \<not> writes_field c (id' t)"
    unfolding autoFillDevDates_outcome [OF assms(1)] using ni nv
    by (auto simp: issued_def s1 writes_field_batched split: sum.splits if_splits)
  have 3: "holds_value raw devStartDate \<and> holds_value raw devDueDate \<longrightarrow>
            autoFillDevDates w k s = (Inr \<lparr> filled = [], stillMissing = [] \<rparr>, s1)
            \<and> (\<forall>c \<in> set (issued s s1). \<not> is_update c)"
  proof
    assume h: "holds_value raw devStartDate \<and> holds_value raw devDueDate"
    then have "policy_fill raw = []" and "policy_missing raw = []"
      by (simp_all add: policy_fill_def policy_missing_def managed_pairs_def)
    then show "autoFillDevDates w k s = (Inr \<lparr> filled = [], stillMissing = [] \<rparr>, s1)
            \<and> (\<forall>c \<in> set (issued s s1). \<not> is_update c)"
      unfolding autoFillDevDates_outcome [OF assms(1)]
      by (simp add: issued_def s1 is_update_def)
  qed
  from 1 2 3 show ?thesis by blast
qed

lemmas fill_ev = getIssueRawFields_def runJira_def getJiraCliPath_def view_args_def
  fill_world_def tracker_prefs_def no_prefs_def fresh_io_def viewed_io_def allIds_def
  js_get_def field_string_def issue_dated_def issue_planned_def raw_dated_def raw_planned_def
  field_ev

lemma read_dated:
  "getIssueRawFields (fill_world issue_dated r) ''AB-1'' allIds fresh_io = (Inr raw_dated, viewed_io)"
  by (simp add: fill_ev truthy_def)

lemma read_planned:
  "getIssueRawFields (fill_world issue_planned r) ''AB-1'' allIds fresh_io
   = (Inr raw_planned, viewed_io)"
  by (simp add: fill_ev truthy_def)

theorem autoFill_keeps_existing_witness:
  "autoFillDevDates (fill_world issue_dated (Inl ''unused'')) ''AB-1'' fresh_io
   = (Inr \<lparr> filled = [], stillMissing = [] \<rparr>, viewed_io)"
proof -
  have p: "(devStartDate, plannedStart) \<in> set managed_pairs"
    by (simp add: managed_pairs_def)
  have a: "holds_value raw_dated devStartDate"
    by (simp add: holds_value_def raw_at_def raw_dated_def truthy_opt_def truthy_def field_ev)
  have b: "holds_value raw_dated devDueDate"
    by (simp add: holds_value_def raw_at_def raw_dated_def truthy_opt_def truthy_def field_ev)
  show ?thesis
    using autoFill_keeps_existing [OF read_dated p a] a b by blast
qed

text \<open>
  Claim C7. When the fields of an issue have been read, a managed target field holds no
  value and its planned counterpart holds the value \<open>v\<close>, then: the fields the policy
  computes include the target with the value \<open>v\<close>; with the tracker's address and token
  configured, the auto-filler issues after the read exactly one update, which carries
  all the computed fields; if that update is rejected, or answered with a status that
  does not start with 2, the auto-filler fails with an error; if it is accepted, the
  target is reported as filled. Without address or token the update cannot be made and
  the auto-filler fails with that error.
\<close>

theorem autoFill_copies_planned:
  assumes "getIssueRawFields w k allIds s = (Inr raw, s1)"
    and "(t, p) \<in> set managed_pairs"
    and "\<not> holds_value raw t"
    and "raw_at raw (id' p) = Some v"
    and "truthy v"
  shows "(t, v) \<in> set (policy_fill raw)
       \<and> (\<forall>res. fst (autoFillDevDates w k s) = Inr res \<longrightarrow> name t \<in> set (filled res))
       \<and> (\<forall>a. getJiraAuth w = Inr a \<longrightarrow>
             issued s1 (snd (autoFillDevDates w k s)) = [batched_update a k (policy_fill raw)]
           \<and> (\<forall>e. respond w (calls s1 @ [batched_update a k (policy_fill raw)]) = Inl e \<longrightarrow>
                  fst (autoFillDevDates w k s) = Inl e)
           \<and> (\<forall>out. respond w (calls s1 @ [batched_update a k (policy_fill raw)]) = Inr out
                    \<and> \<not> accepted out \<longrightarrow>
                  (\<exists>e. fst (autoFillDevDates w k s) = Inl e))
           \<and> (\<forall>out. respond w (calls s1 @ [batched_update a k (policy_fill raw)]) = Inr out
                    \<and> accepted out \<longrightarrow>
                  fst (autoFillDevDates w k s)
                    = Inr \<lparr> filled = map (\<lambda>(t, v). name t) (policy_fill raw),
                            stillMissing = policy_missing raw \<rparr>))
       \<and> (\<forall>e. getJiraAuth w = Inl e \<longrightarrow> autoFillDevDates w k s = (Inl e, s1))"
proof -
  have tv: "truthy_val (raw_at raw (id' p)) = Some v"
    using assms(4,5) by (simp add: truthy_val_def truthy_opt_def)
  have mem: "(t, v) \<in> set (policy_fill raw)"
    using assms(2,3) tv by (auto simp: policy_fill_def managed_pairs_def)
  then have ne: "policy_fill raw \<noteq> []" by auto
  have nm: "name t \<in> set (map (\<lambda>(t, v). name t) (policy_fill raw))"
    using mem by force
  have 2: "\<forall>res. fst (autoFillDevDates w k s) = Inr res \<longrightarrow> name t \<in> set (filled res)"
    unfolding autoFillDevDates_outcome [OF assms(1)] using ne nm
    by (auto split: sum.splits if_splits)
  have 3: "\<forall>a. getJiraAuth w = Inr a \<longrightarrow>
             issued s1 (snd (autoFillDevDates w k s)) = [batched_update a k (policy_fill raw)]
           \<and> (\<forall>e. respond w (calls s1 @ [batched_update a k (policy_fill raw)]) = Inl e \<longrightarrow>
                  fst (autoFillDevDates w k s) = Inl e)
           \<and> (\<forall>out. respond w (calls s1 @ [batched_update a k (policy_fill raw)]) = Inr out
                    \<and> \<not> accepted out \<longrightarrow>
                  (\<exists>e. fst (autoFillDevDates w k s) = Inl e))
           \<and> (\<forall>out. respond w (calls s1 @ [batched_update a k (policy_fill raw)]) = Inr out
                    \<and> accepted out \<longrightarrow>
                  fst (autoFillDevDates w k s)
                    = Inr \<lparr> filled = map (\<lambda>(t, v). name t) (policy_fill raw),
                            stillMissing = policy_missing raw \<rparr>)"
    unfolding autoFillDevDates_outcome [OF assms(1)] using ne
    by (auto simp: issued_def)
  have 4: "\<forall>e. getJiraAuth w = Inl e \<longrightarrow> autoFillDevDates w k s = (Inl e, s1)"
    unfolding autoFillDevDates_outcome [OF assms(1)] using ne by auto
  from mem 2 3 4 show ?thesis by blast
qed

theorem autoFill_copies_planned_witness:
  "fst (autoFillDevDates (fill_world issue_planned (Inr ([CHR 0x0A] @ ''204''))) ''AB-1'' fresh_io)
     = Inr \<lparr> filled = [''Dev Start Date''], stillMissing = [] \<rparr>
   \<and> issued viewed_io
       (snd (autoFillDevDates (fill_world issue_planned (Inr ([CHR 0x0A] @ ''204''))) ''AB-1'' fresh_io))
     = [CurlPut ''https://jira.example/rest/api/2/issue/AB-1'' ''secret''
          (JObj [(''fields'', JObj [(''customfield_11516'', JStr ''2024-02-02'')])])]
   \<and> fst (autoFillDevDates (fill_world issue_planned (Inl ''connection refused'')) ''AB-1'' fresh_io)
     = Inl ''connection refused''"
proof -
  let ?ok = "fill_world issue_planned (Inr ([CHR 0x0A] @ ''204''))"
  let ?no = "fill_world issue_planned (Inl ''connection refused'')"
  have p: "(devStartDate, plannedStart) \<in> set managed_pairs"
    by (simp add: managed_pairs_def)
  have a: "\<not> holds_value raw_planned devStartDate"
    by (simp add: holds_value_def raw_at_def raw_planned_def truthy_opt_def truthy_def field_ev)
  have v: "raw_at raw_planned (id' plannedStart) = Some ''2024-02-02''"
    by (simp add: raw_at_def raw_planned_def field_ev)
  have t: "truthy ''2024-02-02''" by (simp add: truthy_def)
  have f: "policy_fill raw_planned = [(devStartDate, ''2024-02-02'')]"
    by (simp add: policy_fill_def managed_pairs_def holds_value_def raw_at_def raw_planned_def
                  truthy_val_def truthy_opt_def truthy_def field_ev)
  have m: "policy_missing raw_planned = []"
    by (simp add: policy_missing_def managed_pairs_def holds_value_def raw_at_def raw_planned_def
                  truthy_opt_def truthy_def field_ev)
  have au: "\<And>r. getJiraAuth (fill_world issue_planned r) = Inr tracker_auth"
    by (simp add: getJiraAuth_def fill_world_def tracker_prefs_def no_prefs_def tracker_auth_def
                  strip_trailing_slashes_def truthy_def)
  have bu: "batched_update tracker_auth ''AB-1'' [(devStartDate, ''2024-02-02'')]
            = CurlPut ''https://jira.example/rest/api/2/issue/AB-1'' ''secret''
                (JObj [(''fields'', JObj [(''customfield_11516'', JStr ''2024-02-02'')])])"
    by (simp add: batched_update_def tracker_auth_def update_body_def field_ev)
  have r1: "respond ?ok (calls viewed_io @ [batched_update tracker_auth ''AB-1'' (policy_fill raw_planned)])
            = Inr ([CHR 0x0A] @ ''204'')"
    by (simp add: f bu fill_world_def)
  have ac: "accepted ([CHR 0x0A] @ ''204'')"
    by (simp add: accepted_def split_on_def str_ev)
  have r2: "respond ?no (calls viewed_io @ [batched_update tracker_auth ''AB-1'' (policy_fill raw_planned)])
            = Inl ''connection refused''"
    by (simp add: f bu fill_world_def)
  from autoFill_copies_planned [OF read_planned p a v t, of "Inr ([CHR 0x0A] @ ''204'')"] au r1 ac
  have 1: "fst (autoFillDevDates ?ok ''AB-1'' fresh_io)
            = Inr \<lparr> filled = map (\<lambda>(t, v). name t) (policy_fill raw_planned),
                      stillMissing = policy_missing raw_planned \<rparr>"
    and 2: "issued viewed_io (snd (autoFillDevDates ?ok ''AB-1'' fresh_io))
            = [batched_update tracker_auth ''AB-1'' (policy_fill raw_planned)]"
    by blast+
  from autoFill_copies_planned [OF read_planned p a v t, of "Inl ''connection refused''"] au r2
  have 3: "fst (autoFillDevDates ?no ''AB-1'' fresh_io) = Inl ''connection refused''"
    by blast
  have nd: "name devStartDate = ''Dev Start Date''" by (simp add: field_ev)
  from 1 2 3 show ?thesis by (simp add: f m bu nd)
qed

section \<open>Remaining steps along the workflow\<close>

lemma findIndex_distinct:
  "distinct (map f xs) \<Longrightarrow> j < length xs \<Longrightarrow> findIndex (\<lambda>y. f y = f (xs ! j)) xs = int j"
proof (induction xs arbitrary: j)
  case Nil
  then show ?case by simp
next
  case (Cons x xs)
  show ?case
  proof (cases j)
    case 0
    then show ?thesis by simp
  next
    case (Suc i)
    with Cons.prems have i: "i < length xs" and d: "distinct (map f xs)" by simp_all
    from Cons.prems Suc i have "f x \<noteq> f (xs ! i)" by (auto simp: image_iff)
    with Cons.IH [OF d i] Suc show ?thesis by (simp add: Let_def)
  qed
qed

lemma workflow_names:
  "map (\<lambda>st. normalizeStatus (WorkflowStep.status st)) WORKFLOW
   = [''WAITING'', ''DOING'', ''INTEGRATION'', ''1ST REVIEW'', ''TESTING'', ''2ND REVIEW'',
      ''UAT'', ''STAGING'', ''REGRESSION'', ''DELIVERING'', ''DONE'']"
  by (simp add: WORKFLOW_def mkStep_def normalizeStatus_def STATUS_ALIASES_def str_ev)

lemma workflow_distinct:
  "distinct (map (\<lambda>st. normalizeStatus (WorkflowStep.status st)) WORKFLOW)"
  unfolding workflow_names by simp

lemma index_of_stage:
  "j < length WORKFLOW \<Longrightarrow> getWorkflowIndex (WorkflowStep.status (WORKFLOW ! j)) = int j"
  unfolding getWorkflowIndex_def
  using findIndex_distinct [OF workflow_distinct, of j] by simp

lemma remaining_of_stage:
  "j < length WORKFLOW \<Longrightarrow>
     getRemainingSteps (WorkflowStep.status (WORKFLOW ! j)) = drop (Suc j) WORKFLOW"
  by (simp add: getRemainingSteps_def index_of_stage nat_add_distrib)

lemma remaining_is_drop:
  "getRemainingSteps s0 \<noteq> [] \<Longrightarrow> \<exists>k. getRemainingSteps s0 = drop k WORKFLOW"
  by (auto simp: getRemainingSteps_def Let_def split: if_splits)

text \<open>
  After the steps \<open>pre\<close> of the remaining steps, the steps that remain from the stage the
  issue has reached are the ones after \<open>pre\<close>.
\<close>

lemma remaining_after_prefix:
  assumes "getRemainingSteps s0 = pre @ st # post"
  shows "getRemainingSteps (reached s0 pre) = st # post"
proof (cases pre rule: rev_cases)
  case Nil
  with assms show ?thesis by (simp add: reached_def)
next
  case (snoc pre' x)
  from assms obtain k where k: "drop k WORKFLOW = pre' @ x # st # post"
    using remaining_is_drop [of s0] snoc by auto
  let ?j = "k + length pre'"
  have d: "drop ?j WORKFLOW = x # st # post"
    using k by (metis append_eq_conv_conj drop_drop add.commute)
  then have j: "?j < length WORKFLOW" by (metis drop_all list.distinct(1) not_le)
  have x: "WORKFLOW ! ?j = x" using d j by (metis Cons_nth_drop_Suc list.inject)
  have "drop (Suc ?j) WORKFLOW = st # post"
    using d by (metis drop_Suc tl_drop list.sel(3))
  with remaining_of_stage [OF j] x have "getRemainingSteps (WorkflowStep.status x) = st # post"
    by simp
  then show ?thesis using snoc by (simp add: reached_def)
qed

section \<open>Run to completion\<close>

lemma loop_after_passed:
  "passed w i n pre v = Some v1 \<Longrightarrow>
     transition_loop w i n (pre @ rest) v = transition_loop w i n rest v1"
  by (induction pre arbitrary: v) (auto split: pass.splits)

lemma upd_toast_shown:
  "upd_toast f (showToast st ti msg a)
   = a\<lparr>toasts := toasts a @ [f \<lparr> style = st, title = ti, message = msg, hidden = False \<rparr>]\<rparr>"
  by (simp add: upd_toast_def showToast_def)

lemma upd_toast_last:
  "upd_toast f (a\<lparr>toasts := ts @ [t]\<rparr>) = a\<lparr>toasts := ts @ [f t]\<rparr>"
  by (simp add: upd_toast_def)

lemma loop_body_Continue:
  assumes "loop_body w i n st v = Continue v1"
  shows "completedSteps v1 = completedSteps v @ [step_label st]
       \<and> currentStatus v1 = WorkflowStep.status st
       \<and> issue (view v1) = issue (view v) \<and> nav (view v1) = nav (view v)
       \<and> issues (view v1) = issues (view v)"
  using assms
  by (auto simp: loop_body_def Let_def showToast_def upd_toast_def
           split: if_splits prod.splits sum.splits)

lemma passed_vars:
  "passed w i n pre v = Some v1 \<Longrightarrow>
     completedSteps v1 = completedSteps v @ map step_label pre
   \<and> currentStatus v1 = reached (currentStatus v) pre
   \<and> issue (view v1) = issue (view v) \<and> nav (view v1) = nav (view v)
   \<and> issues (view v1) = issues (view v)"
proof (induction pre arbitrary: v)
  case Nil
  then show ?case by (simp add: reached_def)
next
  case (Cons st pre)
  from Cons.prems obtain v2 where b: "loop_body w i n st v = Continue v2"
    and p: "passed w i n pre v2 = Some v1"
    by (auto split: pass.splits)
  have r: "reached (WorkflowStep.status st) pre = reached (currentStatus v) (st # pre)"
    by (cases "rev pre") (simp_all add: reached_def)
  from Cons.IH [OF p] loop_body_Continue [OF b] r show ?case by simp
qed

text \<open>What a pass of the loop body leaves behind when the transition request fails.\<close>

lemma loop_body_rejected:
  assumes "\<not> unmounted w (calls (proc v))"
    and "transitionIssue w (key i) (WorkflowStep.status st) (proc v) = (Inl msg, s2)"
  shows "loop_body w i n st v =
     (if parseMissingFieldsFromError msg = []
      then Return (v\<lparr>view := (view v)\<lparr>
             issue := map_option (\<lambda>x. x\<lparr>status := currentStatus v\<rparr>) (issue (view v)),
             transition := Phase_error (WorkflowStep.status st) (completedSteps v) msg,
             toasts := toasts (view v) @ [\<lparr> style = Failure, title = ''Transition failed'',
                                             message = msg, hidden = False \<rparr>]\<rparr>,
           proc := s2\<rparr>)
      else Return (v\<lparr>view := (view v)\<lparr>
             issue := map_option (\<lambda>x. x\<lparr>status := currentStatus v\<rparr>) (issue (view v)),
             transition := Phase_running (currentStatus v @ arrow @ WorkflowStep.status st)
                             (completedSteps v) n,
             toasts := toasts (view v) @ [\<lparr> style = Failure, title = ''Transition failed'',
                 message = currentStatus v @ arrow @ WorkflowStep.status st, hidden = True \<rparr>],
             nav := \<lparr> issueKey = key i, missingFields = parseMissingFieldsFromError msg,
                      onComplete = Resume_runTransitionLoop (i\<lparr>status := currentStatus v\<rparr>),
                      submitting = False \<rparr> # nav (view v)\<rparr>,
           proc := s2\<rparr>))"
  using assms
  by (simp add: loop_body_def Let_def showToast_def upd_toast_def setIssueStatus_def
                push_form_def)

lemma board_after_passed:
  "board_passed w i pre b = Some b1 \<Longrightarrow>
     board_loop w i (pre @ rest) b = board_loop w i rest b1"
  by (induction pre arbitrary: b) (auto split: pass.splits)

lemma board_body_Continue:
  assumes "board_body w i st b = Continue b1"
  shows "current b1 = WorkflowStep.status st \<and> board b1 = board b"
  using assms
  by (auto simp: board_body_def Let_def split: if_splits prod.splits sum.splits)

lemma board_passed_vars:
  "board_passed w i pre b = Some b1 \<Longrightarrow>
     current b1 = reached (current b) pre \<and> board b1 = board b"
proof (induction pre arbitrary: b)
  case Nil
  then show ?case by (simp add: reached_def)
next
  case (Cons st pre)
  from Cons.prems obtain b2 where c: "board_body w i st b = Continue b2"
    and p: "board_passed w i pre b2 = Some b1"
    by (auto split: pass.splits)
  have r: "reached (WorkflowStep.status st) pre = reached (current b) (st # pre)"
    by (cases "rev pre") (simp_all add: reached_def)
  from Cons.IH [OF p] board_body_Continue [OF c] r show ?case by simp
qed

lemma board_body_rejected:
  assumes "transitionIssue w (key i) (WorkflowStep.status st) (process b) = (Inl msg, s2)"
    and "board b = a\<lparr>toasts := ts @ [t]\<rparr>"
  shows "board_body w i st b =
     (if parseMissingFieldsFromError msg = []
      then Return (b\<lparr>board := a\<lparr>
             issues := map (\<lambda>x. if key x = key i then x\<lparr>status := current b\<rparr> else x) (issues a),
             toasts := ts @ [t\<lparr>style := Failure,
                               title := ''Failed at '' @ WorkflowStep.status st,
                               message := msg\<rparr>]\<rparr>,
           process := s2\<rparr>)
      else Return (b\<lparr>board := a\<lparr>
             issues := map (\<lambda>x. if key x = key i then x\<lparr>status := current b\<rparr> else x) (issues a),
             toasts := ts @ [t\<lparr>style := Failure,
                               title := ''Failed at '' @ WorkflowStep.status st,
                               hidden := True\<rparr>],
             nav := \<lparr> issueKey = key i, missingFields = parseMissingFieldsFromError msg,
                      onComplete = Resume_moveToDone (i\<lparr>status := current b\<rparr>),
                      submitting = False \<rparr> # nav a\<rparr>,
           process := s2\<rparr>))"
  using assms
  by (simp add: board_body_def Let_def upd_toast_def setBoardStatus_def push_form_def)

lemma runTransitionLoop_Return:
  assumes "getRemainingSteps (status i) = rem" and "rem \<noteq> []"
    and "transition_loop w i (length rem) rem
           \<lparr> completedSteps = [], currentStatus = status i,
             view = a\<lparr>transition := Phase_running
                        (status i @ arrow @ WorkflowStep.status (hd rem)) [] (length rem)\<rparr>,
             proc = s \<rparr> = Return v"
  shows "runTransitionLoop w i a s = (view v, proc v)"
  using assms by (cases rem) (simp_all add: runTransitionLoop_def Let_def)

lemma runTransitionLoop_rejected:
  assumes "getRemainingSteps (status i) = pre @ st # post"
    and "parseMissingFieldsFromError msg = []"
    and "passed w i (length (pre @ st # post)) pre
          \<lparr> completedSteps = [], currentStatus = status i,
            view = a\<lparr>transition := Phase_running
                       (status i @ arrow @ WorkflowStep.status (hd (pre @ [st]))) []
                       (length (pre @ st # post))\<rparr>,
            proc = s \<rparr> = Some v1"
    and "\<not> unmounted w (calls (proc v1))"
    and "transitionIssue w (key i) (WorkflowStep.status st) (proc v1) = (Inl msg, s2)"
  shows "runTransitionLoop w i a s =
              (a\<lparr>issue := map_option (\<lambda>x. x\<lparr>status := reached (status i) pre\<rparr>) (issue a),
                 transition := Phase_error (WorkflowStep.status st) (map step_label pre) msg,
                 toasts := toasts (view v1) @ [\<lparr> style = Failure, title = ''Transition failed'',
                                                  message = msg, hidden = False \<rparr>]\<rparr>,
               s2)"
proof -
  let ?n = "length (pre @ st # post)"
  let ?a1 = "a\<lparr>transition := Phase_running
                       (status i @ arrow @ WorkflowStep.status (hd (pre @ [st]))) [] ?n\<rparr>"
  let ?v0 = "\<lparr> completedSteps = [], currentStatus = status i, view = ?a1, proc = s \<rparr>"
  have h: "passed w i ?n pre ?v0 = Some v1
        \<and> \<not> unmounted w (calls (proc v1))
        \<and> transitionIssue w (key i) (WorkflowStep.status st) (proc v1) = (Inl msg, s2)"
    using assms(3,4,5) by simp
  have hd: "hd (pre @ st # post) = hd (pre @ [st])" by (cases pre) auto
  from h have p: "passed w i ?n pre ?v0 = Some v1" by blast
  have vars: "completedSteps v1 = map step_label pre"
    "currentStatus v1 = reached (status i) pre"
    "issue (view v1) = issue a" "nav (view v1) = nav a" "issues (view v1) = issues a"
    using passed_vars [OF p] by simp_all
  have body: "loop_body w i ?n st v1 =
      Return (v1\<lparr>view := (view v1)\<lparr>
             issue := map_option (\<lambda>x. x\<lparr>status := currentStatus v1\<rparr>) (issue (view v1)),
             transition := Phase_error (WorkflowStep.status st) (completedSteps v1) msg,
             toasts := toasts (view v1) @ [\<lparr> style = Failure, title = ''Transition failed'',
                                             message = msg, hidden = False \<rparr>]\<rparr>,
           proc := s2\<rparr>)"
    using loop_body_rejected [of w v1 i st msg s2 ?n] h assms(2) by simp
  have loop: "transition_loop w i ?n (pre @ st # post) ?v0 =
      Return (v1\<lparr>view := (view v1)\<lparr>
             issue := map_option (\<lambda>x. x\<lparr>status := currentStatus v1\<rparr>) (issue (view v1)),
             transition := Phase_error (WorkflowStep.status st) (completedSteps v1) msg,
             toasts := toasts (view v1) @ [\<lparr> style = Failure, title = ''Transition failed'',
                                             message = msg, hidden = False \<rparr>]\<rparr>,
           proc := s2\<rparr>)"
    unfolding loop_after_passed [OF p] using body by simp
  have same: "\<And>X T. (view v1)\<lparr>issue := X, transition := T,
                   toasts := toasts (view v1) @ [\<lparr> style = Failure, title = ''Transition failed'',
                                             message = msg, hidden = False \<rparr>]\<rparr>
            = a\<lparr>issue := X, transition := T,
                   toasts := toasts (view v1) @ [\<lparr> style = Failure, title = ''Transition failed'',
                                             message = msg, hidden = False \<rparr>]\<rparr>"
    using vars(4,5) by (cases "view v1", cases a) simp
  have "runTransitionLoop w i a s =
        (view (v1\<lparr>view := (view v1)\<lparr>
             issue := map_option (\<lambda>x. x\<lparr>status := currentStatus v1\<rparr>) (issue (view v1)),
             transition := Phase_error (WorkflowStep.status st) (completedSteps v1) msg,
             toasts := toasts (view v1) @ [\<lparr> style = Failure, title = ''Transition failed'',
                                             message = msg, hidden = False \<rparr>]\<rparr>,
           proc := s2\<rparr>),
         proc (v1\<lparr>view := (view v1)\<lparr>
             issue := map_option (\<lambda>x. x\<lparr>status := currentStatus v1\<rparr>) (issue (view v1)),
             transition := Phase_error (WorkflowStep.status st) (completedSteps v1) msg,
             toasts := toasts (view v1) @ [\<lparr> style = Failure, title = ''Transition failed'',
                                             message = msg, hidden = False \<rparr>]\<rparr>,
           proc := s2\<rparr>))"
    using loop by (intro runTransitionLoop_Return [OF assms(1)]) (simp_all add: hd)
  then show ?thesis using vars(1,2,3) same by simp
qed

lemma doTransitions_rejected:
  assumes "getRemainingSteps (status i) = pre @ st # post"
    and "parseMissingFieldsFromError msg = []"
    and "board_passed w i pre
          \<lparr> current = status i,
            board = showToast Animated (''Moving '' @ key i @ '' to Done'')
                      (string_of_nat (length (pre @ st # post)) @ '' transitions'' @ ellipsis) a,
            process = s \<rparr> = Some b1"
    and "transitionIssue w (key i) (WorkflowStep.status st) (process b1) = (Inl msg, s2)"
  shows "doTransitions w i a s =
              (a\<lparr>issues := map (\<lambda>x. if key x = key i
                                       then x\<lparr>status := reached (status i) pre\<rparr> else x) (issues a),
                 toasts := toasts a @ [\<lparr> style = Failure,
                                          title = ''Failed at '' @ WorkflowStep.status st,
                                          message = msg, hidden = False \<rparr>]\<rparr>,
               s2)"
proof -
  let ?n = "length (pre @ st # post)"
  let ?t = "\<lparr> style = Animated, title = ''Moving '' @ key i @ '' to Done'',
              message = string_of_nat ?n @ '' transitions'' @ ellipsis, hidden = False \<rparr>"
  let ?a1 = "showToast Animated (''Moving '' @ key i @ '' to Done'')
                      (string_of_nat ?n @ '' transitions'' @ ellipsis) a"
  let ?b0 = "\<lparr> current = status i, board = ?a1, process = s \<rparr>"
  have h: "board_passed w i pre ?b0 = Some b1
        \<and> transitionIssue w (key i) (WorkflowStep.status st) (process b1) = (Inl msg, s2)"
    using assms(3,4) by simp
  then have p: "board_passed w i pre ?b0 = Some b1" by blast
  have vars: "current b1 = reached (status i) pre" "board b1 = ?a1"
    using board_passed_vars [OF p] by simp_all
  have bd: "board b1 = a\<lparr>toasts := toasts a @ [?t]\<rparr>"
    using vars(2) by (simp add: showToast_def)
  have body: "board_body w i st b1 =
      Return (b1\<lparr>board := a\<lparr>
             issues := map (\<lambda>x. if key x = key i then x\<lparr>status := current b1\<rparr> else x) (issues a),
             toasts := toasts a @ [?t\<lparr>style := Failure,
                               title := ''Failed at '' @ WorkflowStep.status st,
                               message := msg\<rparr>]\<rparr>,
           process := s2\<rparr>)"
  proof -
    from h have tr: "transitionIssue w (key i) (WorkflowStep.status st) (process b1) = (Inl msg, s2)"
      by blast
    show ?thesis using board_body_rejected [OF tr bd] assms(2) by simp
  qed
  have loop: "board_loop w i (pre @ st # post) ?b0 =
      Return (b1\<lparr>board := a\<lparr>
             issues := map (\<lambda>x. if key x = key i then x\<lparr>status := current b1\<rparr> else x) (issues a),
             toasts := toasts a @ [?t\<lparr>style := Failure,
                               title := ''Failed at '' @ WorkflowStep.status st,
                               message := msg\<rparr>]\<rparr>,
           process := s2\<rparr>)"
    unfolding board_after_passed [OF p] using body by simp
  show ?thesis
    unfolding doTransitions_def assms(1) Let_def
    using loop vars(1) by simp
qed

text \<open>
  Claim C1, amended. Let the remaining steps of an issue be \<open>pre\<close>, then \<open>st\<close>, then
  \<open>post\<close>; let the chain pass the steps \<open>pre\<close>, and let the transition request for \<open>st\<close>
  fail with a message in which no missing field is found. Then the run returns at once,
  in the state the failed request has left: nothing is run for the steps \<open>post\<close>. In the
  move-to-done view the run ends in the error phase, which records the stage \<open>st\<close>, the
  labels of the steps \<open>pre\<close> and the message; the status of the issue is that of the
  last step of \<open>pre\<close>, or the starting status when \<open>pre\<close> is empty. On the status board
  the issue gets that same status, and the failure is shown by a toast with the stage
  \<open>st\<close> in its title and the message; no list of completed stages is kept there.
\<close>

theorem chain_halts_on_failure:
  assumes "getRemainingSteps (status i) = pre @ st # post"
    and "parseMissingFieldsFromError msg = []"
  shows
    "(\<forall>v1 s2.
        passed w i (length (pre @ st # post)) pre
          \<lparr> completedSteps = [], currentStatus = status i,
            view = a\<lparr>transition := Phase_running
                       (status i @ arrow @ WorkflowStep.status (hd (pre @ [st]))) []
                       (length (pre @ st # post))\<rparr>,
            proc = s \<rparr> = Some v1
        \<and> \<not> unmounted w (calls (proc v1))
        \<and> transitionIssue w (key i) (WorkflowStep.status st) (proc v1) = (Inl msg, s2)
        \<longrightarrow> runTransitionLoop w i a s =
              (a\<lparr>issue := map_option (\<lambda>x. x\<lparr>status := reached (status i) pre\<rparr>) (issue a),
                 transition := Phase_error (WorkflowStep.status st) (map step_label pre) msg,
                 toasts := toasts (view v1) @ [\<lparr> style = Failure, title = ''Transition failed'',
                                                  message = msg, hidden = False \<rparr>]\<rparr>,
               s2))
   \<and> (\<forall>b1 s2.
        board_passed w i pre
          \<lparr> current = status i,
            board = showToast Animated (''Moving '' @ key i @ '' to Done'')
                      (string_of_nat (length (pre @ st # post)) @ '' transitions'' @ ellipsis) a,
            process = s \<rparr> = Some b1
        \<and> transitionIssue w (key i) (WorkflowStep.status st) (process b1) = (Inl msg, s2)
        \<longrightarrow> doTransitions w i a s =
              (a\<lparr>issues := map (\<lambda>x. if key x = key i
                                       then x\<lparr>status := reached (status i) pre\<rparr> else x) (issues a),
                 toasts := toasts a @ [\<lparr> style = Failure,
                                          title = ''Failed at '' @ WorkflowStep.status st,
                                          message = msg, hidden = False \<rparr>]\<rparr>,
               s2))"
  using runTransitionLoop_rejected [OF assms] doTransitions_rejected [OF assms] by blast

text \<open>A transition request that the tracker accepts, or rejects, at the first attempt.\<close>

lemma transitionIssue_accepted:
  assumes "respond w (calls s @ [move_cmd w k t]) = Inr out" and "\<not> mentions_failure out"
  shows "transitionIssue w k t s = (Inr (), s\<lparr>calls := calls s @ [move_cmd w k t]\<rparr>)"
  using assms
  by (simp add: transitionIssue_def tryMove_def runJira_def move_cmd_def Let_def)

lemma transitionIssue_rejected:
  assumes "respond w (calls s @ [move_cmd w k t]) = Inl m"
    and "findMatchingTransition t (parseAvailableTransitions (''jira CLI (exit 1): '' @ strip_ansi m))
         = None"
    and "map_of STATUS_FALLBACKS (toUpperCase t) = None"
  shows "transitionIssue w k t s
         = (Inl (''jira CLI (exit 1): '' @ strip_ansi m), s\<lparr>calls := calls s @ [move_cmd w k t]\<rparr>)"
  using assms
  by (simp add: transitionIssue_def tryMove_def runJira_def move_cmd_def Let_def truthy_val_def
                truthy_opt_def)

lemmas world_ev = example_world_def no_prefs_def fresh_io_def rejects_def move_cmd_def
  move_args_def getJiraCliPath_def issue_at_def views_of_def board_of_def

lemma remaining_Staging:
  "getRemainingSteps ''Staging'' = [WORKFLOW ! 8] @ WORKFLOW ! 9 # [WORKFLOW ! 10]"
  by (simp add: wf_ev str_ev)

lemma remaining_Regression:
  "getRemainingSteps ''Regression'' = [WORKFLOW ! 9] @ WORKFLOW ! 10 # []"
  by (simp add: wf_ev str_ev)

lemma stage_names:
  "WorkflowStep.status (WORKFLOW ! 8) = ''Regression''"
  "WorkflowStep.status (WORKFLOW ! 9) = ''Delivering''"
  "WorkflowStep.status (WORKFLOW ! 10) = ''Done''"
  by (simp_all add: WORKFLOW_def mkStep_def)

lemma no_fallbacks:
  "map_of STATUS_FALLBACKS (toUpperCase ''Regression'') = None"
  "map_of STATUS_FALLBACKS (toUpperCase ''Delivering'') = None"
  "map_of STATUS_FALLBACKS (toUpperCase ''Done'') = None"
  by (simp_all add: STATUS_FALLBACKS_def STATUS_ALIASES_def push_fallback_def str_ev)

lemma boom_plain:
  "parseAvailableTransitions ''jira CLI (exit 1): boom'' = []"
  "parseMissingFieldsFromError ''jira CLI (exit 1): boom'' = []"
  by (simp_all add: parseAvailableTransitions_def match_available_at_def
                    parseMissingFieldsFromError_def match_fill_in_at_def fill_in_at_def str_ev)

lemma not_assigned:
  "autoAssignForStatus w k ''Regression'' s = (Inr \<lparr> assigned = False, assignedName = None \<rparr>, s)"
  "autoAssignForStatus w k ''Delivering'' s = (Inr \<lparr> assigned = False, assignedName = None \<rparr>, s)"
  by (simp_all add: autoAssignForStatus_def ROLE_STATUS_MAP_def normalizeStatus_def
                    STATUS_ALIASES_def str_ev)

theorem chain_halts_on_failure_witness:
  "runTransitionLoop (example_world (rejects ''Done'' ''boom'')) (issue_at ''Regression'')
     (views_of ''Regression'') fresh_io
   = ((views_of ''Regression'')\<lparr>
        issue := Some (issue_at ''Delivering''),
        transition := Phase_error ''Done'' [step_label (WORKFLOW ! 9)] ''jira CLI (exit 1): boom'',
        toasts := [\<lparr> style = Success, title = ''Done: Delivering'',
                     message = ''Continuing'' @ ellipsis, hidden = False \<rparr>,
                   \<lparr> style = Failure, title = ''Transition failed'',
                     message = ''jira CLI (exit 1): boom'', hidden = False \<rparr>]\<rparr>,
      \<lparr> calls = [move_cmd (example_world (rejects ''Done'' ''boom'')) ''AB-1'' ''Delivering'',
                 Sleep 600,
                 move_cmd (example_world (rejects ''Done'' ''boom'')) ''AB-1'' ''Done''],
        cachedFieldMap = None \<rparr>)
   \<and> doTransitions (example_world (rejects ''Done'' ''boom'')) (issue_at ''Regression'')
       (views_of ''Regression'') fresh_io
   = ((views_of ''Regression'')\<lparr>
        issues := [issue_at ''Delivering''],
        toasts := [\<lparr> style = Failure, title = ''Failed at Done'',
                     message = ''jira CLI (exit 1): boom'', hidden = False \<rparr>]\<rparr>,
      \<lparr> calls = [move_cmd (example_world (rejects ''Done'' ''boom'')) ''AB-1'' ''Delivering'',
                 Sleep 600,
                 move_cmd (example_world (rejects ''Done'' ''boom'')) ''AB-1'' ''Done''],
        cachedFieldMap = None \<rparr>)"
proof -
  let ?w = "example_world (rejects ''Done'' ''boom'')"
  let ?i = "issue_at ''Regression''"
  let ?a = "views_of ''Regression''"
  let ?s1 = "\<lparr> calls = [move_cmd ?w ''AB-1'' ''Delivering'', Sleep 600], cachedFieldMap = None \<rparr>"
  let ?s2 = "\<lparr> calls = [move_cmd ?w ''AB-1'' ''Delivering'', Sleep 600,
                         move_cmd ?w ''AB-1'' ''Done''], cachedFieldMap = None \<rparr>"
  let ?msg = "''jira CLI (exit 1): boom''"
  have rem: "getRemainingSteps (status ?i) = [WORKFLOW ! 9] @ WORKFLOW ! 10 # []"
    using remaining_Regression by (simp add: issue_at_def)
  have k: "key ?i = ''AB-1''" "status ?i = ''Regression''" by (simp_all add: issue_at_def)
  have um: "\<And>h. \<not> unmounted ?w h" by (simp add: example_world_def)
  have rD: "\<And>h. respond ?w (h @ [move_cmd ?w ''AB-1'' ''Delivering'']) = Inr ''{}''"
    by (simp add: world_ev truthy_def)
  have rX: "\<And>h. respond ?w (h @ [move_cmd ?w ''AB-1'' ''Done'']) = Inl ''boom''"
    by (simp add: world_ev truthy_def)
  have nf: "\<not> mentions_failure ''{}''" by (simp add: mentions_failure_def str_ev)
  have nm: "findMatchingTransition ''Done''
              (parseAvailableTransitions (''jira CLI (exit 1): '' @ strip_ansi ''boom'')) = None"
    by (simp add: boom_plain findMatchingTransition_def truthy_opt_def Let_def)
  have t1: "transitionIssue ?w ''AB-1'' ''Delivering'' fresh_io
            = (Inr (), \<lparr> calls = [move_cmd ?w ''AB-1'' ''Delivering''], cachedFieldMap = None \<rparr>)"
    using transitionIssue_accepted [OF rD nf, of "fresh_io"] by (simp add: fresh_io_def)
  have t2: "transitionIssue ?w ''AB-1'' ''Done'' ?s1 = (Inl ?msg, ?s2)"
    using transitionIssue_rejected [OF rX nm no_fallbacks(3), of ?s1] by simp
  have p1: "passed ?w ?i (length ([WORKFLOW ! 9] @ WORKFLOW ! 10 # [])) [WORKFLOW ! 9]
          \<lparr> completedSteps = [], currentStatus = status ?i,
            view = ?a\<lparr>transition := Phase_running
                       (status ?i @ arrow @ WorkflowStep.status (hd ([WORKFLOW ! 9] @ [WORKFLOW ! 10]))) []
                       (length ([WORKFLOW ! 9] @ WORKFLOW ! 10 # []))\<rparr>,
            proc = fresh_io \<rparr>
        = Some \<lparr> completedSteps = [step_label (WORKFLOW ! 9)], currentStatus = ''Delivering'',
                 view = ?a\<lparr>transition := Phase_running (''Regression'' @ arrow @ ''Delivering'') [] 2,
                          toasts := [\<lparr> style = Success, title = ''Done: Delivering'',
                                       message = ''Continuing'' @ ellipsis, hidden = False \<rparr>]\<rparr>,
                 proc = ?s1 \<rparr>"
    by (simp add: loop_body_def um k stage_names t1 upd_toast_shown sleep_def views_of_def Let_def)
  have r: "reached (status ?i) [WORKFLOW ! 9] = ''Delivering''"
    by (simp add: reached_def stage_names)
  from chain_halts_on_failure [OF rem boom_plain(2), of ?w ?a fresh_io] p1 um t2 k stage_names
  have A: "runTransitionLoop ?w ?i ?a fresh_io =
              (?a\<lparr>issue := map_option (\<lambda>x. x\<lparr>status := reached (status ?i) [WORKFLOW ! 9]\<rparr>) (issue ?a),
                 transition := Phase_error ''Done'' (map step_label [WORKFLOW ! 9]) ?msg,
                 toasts := [\<lparr> style = Success, title = ''Done: Delivering'',
                               message = ''Continuing'' @ ellipsis, hidden = False \<rparr>]
                           @ [\<lparr> style = Failure, title = ''Transition failed'',
                                                  message = ?msg, hidden = False \<rparr>]\<rparr>,
               ?s2)"
    by simp
  have b1: "board_passed ?w ?i [WORKFLOW ! 9]
          \<lparr> current = status ?i,
            board = showToast Animated (''Moving '' @ key ?i @ '' to Done'')
                      (string_of_nat (length ([WORKFLOW ! 9] @ WORKFLOW ! 10 # [])) @ '' transitions'' @ ellipsis) ?a,
            process = fresh_io \<rparr>
        = Some \<lparr> current = ''Delivering'',
            board = showToast Animated (''Moving '' @ key ?i @ '' to Done'')
                      (string_of_nat (length ([WORKFLOW ! 9] @ WORKFLOW ! 10 # [])) @ '' transitions'' @ ellipsis) ?a,
            process = ?s1 \<rparr>"
    by (simp add: board_body_def k stage_names t1 not_assigned sleep_def Let_def)
  from chain_halts_on_failure [OF rem boom_plain(2), of ?w ?a fresh_io] b1 t2 k stage_names
  have B: "doTransitions ?w ?i ?a fresh_io =
              (?a\<lparr>issues := map (\<lambda>x. if key x = key ?i
                                       then x\<lparr>status := reached (status ?i) [WORKFLOW ! 9]\<rparr> else x) (issues ?a),
                 toasts := toasts ?a @ [\<lparr> style = Failure,
                                          title = ''Failed at '' @ ''Done'',
                                          message = ?msg, hidden = False \<rparr>]\<rparr>,
               ?s2)"
    by simp
  from A B r show ?thesis by (simp add: views_of_def issue_at_def)
qed

text \<open>
  As stated for every run to completion, the claim fails on the status board, which keeps
  no list of the completed stages: a run that passes \<open>Regression\<close> and then fails at
  \<open>Delivering\<close>, and a run that fails at \<open>Delivering\<close> at once, leave the board in the
  same state.
\<close>

theorem board_keeps_no_completed_list_counterexample:
  "fst (doTransitions (example_world (rejects ''Delivering'' ''boom'')) (issue_at ''Staging'')
          (board_of ''Staging'') fresh_io)
   = fst (doTransitions (example_world (rejects ''Delivering'' ''boom'')) (issue_at ''Regression'')
          (board_of ''Regression'') fresh_io)
   \<and> calls (snd (doTransitions (example_world (rejects ''Delivering'' ''boom''))
                    (issue_at ''Staging'') (board_of ''Staging'') fresh_io))
     = [move_cmd (example_world (rejects ''Delivering'' ''boom'')) ''AB-1'' ''Regression'',
        Sleep 600,
        move_cmd (example_world (rejects ''Delivering'' ''boom'')) ''AB-1'' ''Delivering'']
   \<and> calls (snd (doTransitions (example_world (rejects ''Delivering'' ''boom''))
                    (issue_at ''Regression'') (board_of ''Regression'') fresh_io))
     = [move_cmd (example_world (rejects ''Delivering'' ''boom'')) ''AB-1'' ''Delivering'']"
proof -
  let ?w = "example_world (rejects ''Delivering'' ''boom'')"
  let ?iA = "issue_at ''Staging''" and ?iB = "issue_at ''Regression''"
  let ?msg = "''jira CLI (exit 1): boom''"
  let ?s1 = "\<lparr> calls = [move_cmd ?w ''AB-1'' ''Regression'', Sleep 600], cachedFieldMap = None \<rparr>"
  let ?sA = "\<lparr> calls = [move_cmd ?w ''AB-1'' ''Regression'', Sleep 600,
                         move_cmd ?w ''AB-1'' ''Delivering''], cachedFieldMap = None \<rparr>"
  let ?sB = "\<lparr> calls = [move_cmd ?w ''AB-1'' ''Delivering''], cachedFieldMap = None \<rparr>"
  have remA: "getRemainingSteps (status ?iA) = [WORKFLOW ! 8] @ WORKFLOW ! 9 # [WORKFLOW ! 10]"
    using remaining_Staging by (simp add: issue_at_def)
  have remB: "getRemainingSteps (status ?iB) = [] @ WORKFLOW ! 9 # [WORKFLOW ! 10]"
    using remaining_Regression by (simp add: issue_at_def)
  have k: "key ?iA = ''AB-1''" "key ?iB = ''AB-1''" by (simp_all add: issue_at_def)
  have rR: "\<And>h. respond ?w (h @ [move_cmd ?w ''AB-1'' ''Regression'']) = Inr ''{}''"
    by (simp add: world_ev truthy_def)
  have rX: "\<And>h. respond ?w (h @ [move_cmd ?w ''AB-1'' ''Delivering'']) = Inl ''boom''"
    by (simp add: world_ev truthy_def)
  have nf: "\<not> mentions_failure ''{}''" by (simp add: mentions_failure_def str_ev)
  have nm: "findMatchingTransition ''Delivering''
              (parseAvailableTransitions (''jira CLI (exit 1): '' @ strip_ansi ''boom'')) = None"
    by (simp add: boom_plain findMatchingTransition_def truthy_opt_def Let_def)
  have t1: "transitionIssue ?w ''AB-1'' ''Regression'' fresh_io
            = (Inr (), \<lparr> calls = [move_cmd ?w ''AB-1'' ''Regression''], cachedFieldMap = None \<rparr>)"
    using transitionIssue_accepted [OF rR nf, of "fresh_io"] by (simp add: fresh_io_def)
  have tA: "transitionIssue ?w ''AB-1'' ''Delivering'' ?s1 = (Inl ?msg, ?sA)"
    using transitionIssue_rejected [OF rX nm no_fallbacks(2), of ?s1] by simp
  have tB: "transitionIssue ?w ''AB-1'' ''Delivering'' fresh_io = (Inl ?msg, ?sB)"
    using transitionIssue_rejected [OF rX nm no_fallbacks(2), of fresh_io] by (simp add: fresh_io_def)
  have pA: "board_passed ?w ?iA [WORKFLOW ! 8]
          \<lparr> current = status ?iA,
            board = showToast Animated (''Moving '' @ key ?iA @ '' to Done'')
                      (string_of_nat (length ([WORKFLOW ! 8] @ WORKFLOW ! 9 # [WORKFLOW ! 10]))
                         @ '' transitions'' @ ellipsis) (board_of ''Staging''),
            process = fresh_io \<rparr>
        = Some \<lparr> current = ''Regression'',
            board = showToast Animated (''Moving '' @ key ?iA @ '' to Done'')
                      (string_of_nat (length ([WORKFLOW ! 8] @ WORKFLOW ! 9 # [WORKFLOW ! 10]))
                         @ '' transitions'' @ ellipsis) (board_of ''Staging''),
            process = ?s1 \<rparr>"
    by (simp add: board_body_def k stage_names t1 not_assigned sleep_def Let_def)
  have pB: "board_passed ?w ?iB []
          \<lparr> current = status ?iB,
            board = showToast Animated (''Moving '' @ key ?iB @ '' to Done'')
                      (string_of_nat (length ([] @ WORKFLOW ! 9 # [WORKFLOW ! 10]))
                         @ '' transitions'' @ ellipsis) (board_of ''Regression''),
            process = fresh_io \<rparr>
        = Some \<lparr> current = status ?iB,
            board = showToast Animated (''Moving '' @ key ?iB @ '' to Done'')
                      (string_of_nat (length ([] @ WORKFLOW ! 9 # [WORKFLOW ! 10]))
                         @ '' transitions'' @ ellipsis) (board_of ''Regression''),
            process = fresh_io \<rparr>"
    by simp
  have A: "doTransitions ?w ?iA (board_of ''Staging'') fresh_io
           = ((board_of ''Staging'')\<lparr>issues := [issue_at ''Regression''],
                 toasts := [\<lparr> style = Failure, title = ''Failed at Delivering'',
                              message = ?msg, hidden = False \<rparr>]\<rparr>, ?sA)"
    using doTransitions_rejected [OF remA boom_plain(2) pA] tA
    by (simp add: k stage_names reached_def board_of_def issue_at_def)
  have B: "doTransitions ?w ?iB (board_of ''Regression'') fresh_io
           = ((board_of ''Regression'')\<lparr>issues := [issue_at ''Regression''],
                 toasts := [\<lparr> style = Failure, title = ''Failed at Delivering'',
                              message = ?msg, hidden = False \<rparr>]\<rparr>, ?sB)"
    using doTransitions_rejected [OF remB boom_plain(2) pB] tB
    by (simp add: k stage_names reached_def board_of_def issue_at_def)
  show ?thesis unfolding A B by (simp add: board_of_def)
qed

section \<open>Transition requests within a chain\<close>

lemma transitionIssue_resolved:
  assumes "tryMove w k t s = (Inl e, s1)"
    and "findMatchingTransition t (parseAvailableTransitions e) = Some l"
  shows "transitionIssue w k t s = tryMove w k l s1"
  using assms findMatchingTransition_truthy [of t "parseAvailableTransitions e"]
  by (simp add: transitionIssue_def Let_def)

lemma transitionIssue_unresolved:
  assumes "tryMove w k t s = (Inl e, s1)"
    and "findMatchingTransition t (parseAvailableTransitions e) = None"
    and "map_of STATUS_FALLBACKS (toUpperCase t) = None"
  shows "transitionIssue w k t s = (Inl e, s1)"
  using assms by (simp add: transitionIssue_def Let_def truthy_val_def truthy_opt_def)

lemma loop_body_accepted:
  assumes "\<not> unmounted w (calls (proc v))"
    and "transitionIssue w (key i) (WorkflowStep.status st) (proc v) = (Inr u, s1)"
  shows "\<exists>v'. loop_body w i n st v = Continue v'
          \<and> proc v' = (if length (completedSteps v) + 1 < n then sleep 600 s1 else s1)"
  using assms by (simp add: loop_body_def Let_def)

lemma loop_body_stops:
  assumes "\<not> unmounted w (calls (proc v))"
    and "transitionIssue w (key i) (WorkflowStep.status st) (proc v) = (Inl msg, s2)"
  shows "\<exists>v'. loop_body w i n st v = Return v' \<and> proc v' = s2"
  using loop_body_rejected [OF assms, of n] by (simp split: if_splits)

lemma board_body_accepted:
  assumes "transitionIssue w (key i) (WorkflowStep.status st) (process b) = (Inr u, s1)"
  shows "\<exists>b'. board_body w i st b = Continue b'"
  using assms by (simp add: board_body_def Let_def)

lemma board_body_stops:
  assumes "transitionIssue w (key i) (WorkflowStep.status st) (process b) = (Inl msg, s2)"
  shows "\<exists>b'. board_body w i st b = Return b' \<and> process b' = s2"
  using assms by (simp add: board_body_def Let_def)

text \<open>No stage that a chain attempts has an alias label.\<close>

lemma remaining_in_tail: "st \<in> set (getRemainingSteps x) \<Longrightarrow> st \<in> set (tl WORKFLOW)"
proof -
  assume a: "st \<in> set (getRemainingSteps x)"
  have b: "- 1 \<le> getWorkflowIndex x" unfolding getWorkflowIndex_def using findIndex_bounds by blast
  from a have "getWorkflowIndex x \<noteq> - 1" by (auto simp: getRemainingSteps_def Let_def)
  with b have "nat (getWorkflowIndex x + 1) = Suc (nat (getWorkflowIndex x))" by simp
  with a have "st \<in> set (drop (nat (getWorkflowIndex x)) (tl WORKFLOW))"
    by (auto simp: getRemainingSteps_def Let_def drop_Suc split: if_splits)
  then show ?thesis by (meson in_set_dropD)
qed

lemma no_alias_in_tail:
  "\<forall>st \<in> set (tl WORKFLOW). map_of STATUS_FALLBACKS (toUpperCase (WorkflowStep.status st)) = None"
  by (simp add: WORKFLOW_def mkStep_def STATUS_FALLBACKS_def STATUS_ALIASES_def push_fallback_def
                str_ev)

lemma remaining_no_alias:
  "st \<in> set (getRemainingSteps x) \<Longrightarrow>
     map_of STATUS_FALLBACKS (toUpperCase (WorkflowStep.status st)) = None"
  using remaining_in_tail no_alias_in_tail by blast

text \<open>
  Claim C3, amended. In a run to completion the transition for each stage is a full
  transition request. When the first attempt, under the name of the stage, is rejected
  and the resolver finds a label in the rejection text, the request is retried once
  under that label: the chain goes on when the retry succeeds and stops when it fails.
  When the resolver finds no label the chain stops with that first rejection, after the
  one command: no stage of a chain has an alias label, so no alias attempt is made.
  This holds in the move-to-done view, where the view must still be open, and on the
  status board.
\<close>

theorem chain_step_retries_resolved_label:
  assumes "tryMove w (key i) (WorkflowStep.status st) s = (Inl e, s1)"
    and "st \<in> set (getRemainingSteps x)"
  shows
    "(\<forall>l. findMatchingTransition (WorkflowStep.status st) (parseAvailableTransitions e) = Some l \<longrightarrow>
        (fst (tryMove w (key i) l s1) = Inr () \<longrightarrow>
           (proc v = s \<and> \<not> unmounted w (calls s) \<longrightarrow> (\<exists>v'. loop_body w i n st v = Continue v'))
         \<and> (process b = s \<longrightarrow> (\<exists>b'. board_body w i st b = Continue b')))
      \<and> (\<forall>e'. fst (tryMove w (key i) l s1) = Inl e' \<longrightarrow>
           (proc v = s \<and> \<not> unmounted w (calls s) \<longrightarrow>
              (\<exists>v'. loop_body w i n st v = Return v'
                  \<and> calls (proc v') = calls s @ [move_cmd w (key i) (WorkflowStep.status st),
                                                  move_cmd w (key i) l]))
         \<and> (process b = s \<longrightarrow>
              (\<exists>b'. board_body w i st b = Return b'
                  \<and> calls (process b') = calls s @ [move_cmd w (key i) (WorkflowStep.status st),
                                                     move_cmd w (key i) l]))))
   \<and> (findMatchingTransition (WorkflowStep.status st) (parseAvailableTransitions e) = None \<longrightarrow>
        (proc v = s \<and> \<not> unmounted w (calls s) \<longrightarrow>
           (\<exists>v'. loop_body w i n st v = Return v'
               \<and> calls (proc v') = calls s @ [move_cmd w (key i) (WorkflowStep.status st)]))
      \<and> (process b = s \<longrightarrow>
           (\<exists>b'. board_body w i st b = Return b'
               \<and> calls (process b') = calls s @ [move_cmd w (key i) (WorkflowStep.status st)])))"
proof -
  let ?k = "key i" and ?t = "WorkflowStep.status st"
  have c1: "calls s1 = calls s @ [move_cmd w ?k ?t]"
    using tryMove_calls [of w ?k ?t s] assms(1) by simp
  have A: "\<exists>v'. loop_body w i n st v = Continue v'"
    if "findMatchingTransition ?t (parseAvailableTransitions e) = Some l"
      and "fst (tryMove w ?k l s1) = Inr ()" and "proc v = s \<and> \<not> unmounted w (calls s)" for l
  proof -
    have "transitionIssue w ?k ?t (proc v) = (Inr (), snd (tryMove w ?k l s1))"
      using transitionIssue_resolved [OF assms(1) that(1)] that(2,3)
      by (cases "tryMove w ?k l s1") simp
    with loop_body_accepted [of w v i st] that(3) show ?thesis by blast
  qed
  have B: "\<exists>b'. board_body w i st b = Continue b'"
    if "findMatchingTransition ?t (parseAvailableTransitions e) = Some l"
      and "fst (tryMove w ?k l s1) = Inr ()" and "process b = s" for l
  proof -
    have "transitionIssue w ?k ?t (process b) = (Inr (), snd (tryMove w ?k l s1))"
      using transitionIssue_resolved [OF assms(1) that(1)] that(2,3)
      by (cases "tryMove w ?k l s1") simp
    with board_body_accepted [of w i st b] show ?thesis by blast
  qed
  have C: "\<exists>v'. loop_body w i n st v = Return v'
                  \<and> calls (proc v') = calls s @ [move_cmd w ?k ?t, move_cmd w ?k l]"
    if "findMatchingTransition ?t (parseAvailableTransitions e) = Some l"
      and "fst (tryMove w ?k l s1) = Inl e'" and "proc v = s \<and> \<not> unmounted w (calls s)" for l e'
  proof -
    have "transitionIssue w ?k ?t (proc v) = (Inl e', snd (tryMove w ?k l s1))"
      using transitionIssue_resolved [OF assms(1) that(1)] that(2,3)
      by (cases "tryMove w ?k l s1") simp
    with loop_body_stops [of w v i st e' "snd (tryMove w ?k l s1)" n] that(3)
    obtain v' where "loop_body w i n st v = Return v'" and "proc v' = snd (tryMove w ?k l s1)"
      by blast
    then show ?thesis using c1 by (intro exI [of _ v']) (simp add: tryMove_calls)
  qed
  have D: "\<exists>b'. board_body w i st b = Return b'
                  \<and> calls (process b') = calls s @ [move_cmd w ?k ?t, move_cmd w ?k l]"
    if "findMatchingTransition ?t (parseAvailableTransitions e) = Some l"
      and "fst (tryMove w ?k l s1) = Inl e'" and "process b = s" for l e'
  proof -
    have "transitionIssue w ?k ?t (process b) = (Inl e', snd (tryMove w ?k l s1))"
      using transitionIssue_resolved [OF assms(1) that(1)] that(2,3)
      by (cases "tryMove w ?k l s1") simp
    with board_body_stops [of w i st b e' "snd (tryMove w ?k l s1)"]
    obtain b' where "board_body w i st b = Return b'" and "process b' = snd (tryMove w ?k l s1)"
      by blast
    then show ?thesis using c1 by (intro exI [of _ b']) (simp add: tryMove_calls)
  qed
  have E: "\<exists>v'. loop_body w i n st v = Return v' \<and> calls (proc v') = calls s @ [move_cmd w ?k ?t]"
    if "findMatchingTransition ?t (parseAvailableTransitions e) = None"
      and "proc v = s \<and> \<not> unmounted w (calls s)"
  proof -
    have "transitionIssue w ?k ?t (proc v) = (Inl e, s1)"
      using transitionIssue_unresolved [OF assms(1) that(1) remaining_no_alias [OF assms(2)]] that(2)
      by simp
    with loop_body_stops [of w v i st e s1 n] that(2)
    obtain v' where "loop_body w i n st v = Return v'" and "proc v' = s1" by blast
    then show ?thesis using c1 by (intro exI [of _ v']) simp
  qed
  have F: "\<exists>b'. board_body w i st b = Return b' \<and> calls (process b') = calls s @ [move_cmd w ?k ?t]"
    if "findMatchingTransition ?t (parseAvailableTransitions e) = None" and "process b = s"
  proof -
    have "transitionIssue w ?k ?t (process b) = (Inl e, s1)"
      using transitionIssue_unresolved [OF assms(1) that(1) remaining_no_alias [OF assms(2)]] that(2)
      by simp
    with board_body_stops [of w i st b e s1]
    obtain b' where "board_body w i st b = Return b'" and "process b' = s1" by blast
    then show ?thesis using c1 by (intro exI [of _ b']) simp
  qed
  from A B C D E F show ?thesis by blast
qed

lemma tryMove_rejected:
  assumes "respond w (calls s @ [move_cmd w k t]) = Inl m"
  shows "tryMove w k t s
         = (Inl (''jira CLI (exit 1): '' @ strip_ansi m), s\<lparr>calls := calls s @ [move_cmd w k t]\<rparr>)"
  using assms by (simp add: tryMove_def runJira_def move_cmd_def Let_def)

lemma tryMove_accepted:
  assumes "respond w (calls s @ [move_cmd w k t]) = Inr out" and "\<not> mentions_failure out"
  shows "tryMove w k t s = (Inr (), s\<lparr>calls := calls s @ [move_cmd w k t]\<rparr>)"
  using assms by (simp add: tryMove_def runJira_def move_cmd_def Let_def)

lemma resolves_Start_Delivering:
  "findMatchingTransition ''Delivering''
     (parseAvailableTransitions (''jira CLI (exit 1): '' @ strip_ansi lists_Start_Delivering))
   = Some ''Start Delivering''"
  by (simp add: lists_Start_Delivering_def parse_ev str_ev)

lemma in_remaining_Regression: "WORKFLOW ! 9 \<in> set (getRemainingSteps ''Regression'')"
  by (simp add: remaining_Regression)

theorem chain_step_retries_resolved_label_witness:
  "(\<exists>v'. loop_body (example_world (rejects ''Delivering'' lists_Start_Delivering))
            (issue_at ''Regression'') 2 (WORKFLOW ! 9)
            \<lparr> completedSteps = [], currentStatus = ''Regression'',
              view = views_of ''Regression'', proc = fresh_io \<rparr> = Continue v')
   \<and> (\<exists>b'. board_body (example_world (rejects ''Delivering'' lists_Start_Delivering))
            (issue_at ''Regression'') (WORKFLOW ! 9)
            \<lparr> current = ''Regression'', board = board_of ''Regression'',
              process = fresh_io \<rparr> = Continue b')
   \<and> (\<exists>v'. loop_body (example_world (rejects ''Delivering'' ''boom''))
            (issue_at ''Regression'') 2 (WORKFLOW ! 9)
            \<lparr> completedSteps = [], currentStatus = ''Regression'',
              view = views_of ''Regression'', proc = fresh_io \<rparr> = Return v'
          \<and> calls (proc v')
              = [move_cmd (example_world (rejects ''Delivering'' ''boom'')) ''AB-1'' ''Delivering''])"
proof -
  let ?w = "example_world (rejects ''Delivering'' lists_Start_Delivering)"
  let ?u = "example_world (rejects ''Delivering'' ''boom'')"
  let ?i = "issue_at ''Regression''"
  let ?v = "\<lparr> completedSteps = [], currentStatus = ''Regression'',
              view = views_of ''Regression'', proc = fresh_io \<rparr>"
  let ?b = "\<lparr> current = ''Regression'', board = board_of ''Regression'', process = fresh_io \<rparr>"
  let ?e = "''jira CLI (exit 1): '' @ strip_ansi lists_Start_Delivering"
  let ?s1 = "fresh_io\<lparr>calls := calls fresh_io @ [move_cmd ?w ''AB-1'' ''Delivering'']\<rparr>"
  let ?r1 = "fresh_io\<lparr>calls := calls fresh_io @ [move_cmd ?u ''AB-1'' ''Delivering'']\<rparr>"
  have k: "key ?i = ''AB-1''" by (simp add: issue_at_def)
  have um: "\<And>h. \<not> unmounted ?w h" "\<And>h. \<not> unmounted ?u h" by (simp_all add: example_world_def)
  have rX: "\<And>h. respond ?w (h @ [move_cmd ?w ''AB-1'' ''Delivering'']) = Inl lists_Start_Delivering"
    by (simp add: world_ev truthy_def)
  have rS: "\<And>h. respond ?w (h @ [move_cmd ?w ''AB-1'' ''Start Delivering'']) = Inr ''{}''"
    by (simp add: world_ev truthy_def)
  have rB: "\<And>h. respond ?u (h @ [move_cmd ?u ''AB-1'' ''Delivering'']) = Inl ''boom''"
    by (simp add: world_ev truthy_def)
  have nf: "\<not> mentions_failure ''{}''" by (simp add: mentions_failure_def str_ev)
  have t1: "tryMove ?w (key ?i) (WorkflowStep.status (WORKFLOW ! 9)) fresh_io = (Inl ?e, ?s1)"
    using tryMove_rejected [OF rX, of fresh_io] by (simp add: k stage_names)
  have t2: "fst (tryMove ?w (key ?i) ''Start Delivering'' ?s1) = Inr ()"
    using tryMove_accepted [OF rS nf, of ?s1] by (simp add: k)
  have t3: "tryMove ?u (key ?i) (WorkflowStep.status (WORKFLOW ! 9)) fresh_io
            = (Inl (''jira CLI (exit 1): '' @ strip_ansi ''boom''), ?r1)"
    using tryMove_rejected [OF rB, of fresh_io] by (simp add: k stage_names)
  have m1: "findMatchingTransition (WorkflowStep.status (WORKFLOW ! 9)) (parseAvailableTransitions ?e)
            = Some ''Start Delivering''"
    using resolves_Start_Delivering by (simp add: stage_names)
  have m3: "findMatchingTransition (WorkflowStep.status (WORKFLOW ! 9))
              (parseAvailableTransitions (''jira CLI (exit 1): '' @ strip_ansi ''boom'')) = None"
    by (simp add: boom_plain findMatchingTransition_def truthy_opt_def Let_def)
  from chain_step_retries_resolved_label [OF t1 in_remaining_Regression, of ?v 2 ?b] m1 t2 um
  have A: "(\<exists>v'. loop_body ?w ?i 2 (WORKFLOW ! 9) ?v = Continue v')"
    and B: "(\<exists>b'. board_body ?w ?i (WORKFLOW ! 9) ?b = Continue b')"
    by simp_all
  from chain_step_retries_resolved_label [OF t3 in_remaining_Regression, of ?v 2 ?b] m3 um
  have C: "\<exists>v'. loop_body ?u ?i 2 (WORKFLOW ! 9) ?v = Return v'
          \<and> calls (proc v') = calls fresh_io @ [move_cmd ?u (key ?i) (WorkflowStep.status (WORKFLOW ! 9))]"
    by simp
  from A B C show ?thesis by (simp add: k stage_names fresh_io_def)
qed

text \<open>
  As stated, the claim fails: the rejection of the transition named \<open>Delivering\<close>, which
  lists the label \<open>Start Delivering\<close>, is retried under that label in the middle of a
  chain, and the chain goes on to \<open>Done\<close>.
\<close>

theorem chain_retries_mid_chain_counterexample:
  "calls (snd (runTransitionLoop (example_world (rejects ''Delivering'' lists_Start_Delivering))
                 (issue_at ''Regression'') (views_of ''Regression'') fresh_io))
   = [move_cmd (example_world (rejects ''Delivering'' lists_Start_Delivering)) ''AB-1'' ''Delivering'',
      move_cmd (example_world (rejects ''Delivering'' lists_Start_Delivering)) ''AB-1''
        ''Start Delivering'',
      Sleep 600,
      move_cmd (example_world (rejects ''Delivering'' lists_Start_Delivering)) ''AB-1'' ''Done'']
   \<and> transition (fst (runTransitionLoop (example_world (rejects ''Delivering'' lists_Start_Delivering))
                 (issue_at ''Regression'') (views_of ''Regression'') fresh_io))
   = Phase_done"
proof -
  let ?w = "example_world (rejects ''Delivering'' lists_Start_Delivering)"
  let ?i = "issue_at ''Regression''"
  let ?e = "''jira CLI (exit 1): '' @ strip_ansi lists_Start_Delivering"
  let ?c1 = "[move_cmd ?w ''AB-1'' ''Delivering'']"
  let ?c2 = "[move_cmd ?w ''AB-1'' ''Delivering'', move_cmd ?w ''AB-1'' ''Start Delivering'']"
  let ?c3 = "[move_cmd ?w ''AB-1'' ''Delivering'', move_cmd ?w ''AB-1'' ''Start Delivering'',
              Sleep 600]"
  let ?c4 = "[move_cmd ?w ''AB-1'' ''Delivering'', move_cmd ?w ''AB-1'' ''Start Delivering'',
              Sleep 600, move_cmd ?w ''AB-1'' ''Done'']"
  have k: "key ?i = ''AB-1''" "status ?i = ''Regression''" by (simp_all add: issue_at_def)
  have um: "\<And>h. \<not> unmounted ?w h" by (simp add: example_world_def)
  have rX: "\<And>h. respond ?w (h @ [move_cmd ?w ''AB-1'' ''Delivering'']) = Inl lists_Start_Delivering"
    by (simp add: world_ev truthy_def)
  have rS: "\<And>h. respond ?w (h @ [move_cmd ?w ''AB-1'' ''Start Delivering'']) = Inr ''{}''"
    by (simp add: world_ev truthy_def)
  have rD: "\<And>h. respond ?w (h @ [move_cmd ?w ''AB-1'' ''Done'']) = Inr ''{}''"
    by (simp add: world_ev truthy_def)
  have nf: "\<not> mentions_failure ''{}''" by (simp add: mentions_failure_def str_ev)
  have a1: "tryMove ?w ''AB-1'' ''Delivering'' fresh_io
            = (Inl ?e, \<lparr> calls = ?c1, cachedFieldMap = None \<rparr>)"
    using tryMove_rejected [OF rX, of fresh_io] by (simp add: fresh_io_def)
  have a2: "tryMove ?w ''AB-1'' ''Start Delivering'' \<lparr> calls = ?c1, cachedFieldMap = None \<rparr>
            = (Inr (), \<lparr> calls = ?c2, cachedFieldMap = None \<rparr>)"
    using tryMove_accepted [OF rS nf, of "\<lparr> calls = ?c1, cachedFieldMap = None \<rparr>"] by simp
  have t1: "transitionIssue ?w ''AB-1'' ''Delivering'' fresh_io
            = (Inr (), \<lparr> calls = ?c2, cachedFieldMap = None \<rparr>)"
    using transitionIssue_resolved [OF a1 resolves_Start_Delivering] a2 by simp
  have t2: "transitionIssue ?w ''AB-1'' ''Done'' \<lparr> calls = ?c3, cachedFieldMap = None \<rparr>
            = (Inr (), \<lparr> calls = ?c4, cachedFieldMap = None \<rparr>)"
    using transitionIssue_accepted [OF rD nf, of "\<lparr> calls = ?c3, cachedFieldMap = None \<rparr>"] by simp
  have "runTransitionLoop ?w ?i (views_of ''Regression'') fresh_io
        = ((views_of ''Regression'')\<lparr>
             issue := Some (issue_at ''Done''),
             transition := Phase_done,
             toasts := [\<lparr> style = Success, title = ''Done: Delivering'',
                          message = ''Continuing'' @ ellipsis, hidden = False \<rparr>,
                        \<lparr> style = Success, title = ''Done: Done'',
                          message = ''All done!'', hidden = False \<rparr>]\<rparr>,
           \<lparr> calls = ?c4, cachedFieldMap = None \<rparr>)"
    unfolding runTransitionLoop_def k remaining_Regression
    by (simp add: loop_body_def um k stage_names t1 t2 upd_toast_shown upd_toast_last sleep_def
                  setIssueStatus_def views_of_def issue_at_def showToast_def upd_toast_def Let_def)
  then show ?thesis by simp
qed

section \<open>The order of the commands\<close>

lemma grows_iff: "grows s s' = (\<exists>cs. calls s' = calls s @ cs)"
  unfolding grows_def by (metis append_eq_conv_conj append_take_drop_id)

lemma grows_refl: "grows s s"
  by (simp add: grows_def)

lemma grows_trans: "grows s s1 \<Longrightarrow> grows s1 s2 \<Longrightarrow> grows s s2"
  unfolding grows_iff by auto

lemma grows_calls: "grows s (s\<lparr>calls := calls s @ cs\<rparr>)"
  by (simp add: grows_def)

lemma first_then_grows:
  "calls s1 = calls s @ c # rest \<Longrightarrow> grows s1 s2 \<Longrightarrow> \<exists>rest'. calls s2 = calls s @ c # rest'"
  unfolding grows_iff by auto

lemma tryFallbacks_grows: "grows s (snd (tryFallbacks w k fs s))"
proof -
  from tryFallbacks_trace [of fs w k s] obtain n where
    "snd (tryFallbacks w k fs s) = s\<lparr>calls := calls s @ map (move_cmd w k) (take n fs)\<rparr>"
    by blast
  then show ?thesis by (simp add: grows_calls)
qed

lemma transitionIssue_first:
  "\<exists>rest. calls (snd (transitionIssue w k t s)) = calls s @ move_cmd w k t # rest"
proof -
  obtain r s1 where t: "tryMove w k t s = (r, s1)" by (cases "tryMove w k t s")
  have c1: "calls s1 = calls s @ move_cmd w k t # []"
    using tryMove_calls [of w k t s] t by simp
  have "grows s1 (snd (transitionIssue w k t s))"
  proof (cases r)
    case (Inr u)
    with t show ?thesis by (simp add: transitionIssue_def grows_refl)
  next
    case (Inl e)
    show ?thesis
    proof (cases "truthy_val (findMatchingTransition t (parseAvailableTransitions e))")
      case None
      let ?fs = "case map_of STATUS_FALLBACKS (toUpperCase t) of Some fs \<Rightarrow> fs | None \<Rightarrow> []"
      obtain b s2 where f: "tryFallbacks w k ?fs s1 = (b, s2)"
        by (cases "tryFallbacks w k ?fs s1")
      have "grows s1 s2" using tryFallbacks_grows [of s1 w k ?fs] f by simp
      with t Inl None f show ?thesis
        by (cases b) (simp_all add: transitionIssue_def Let_def)
    next
      case (Some l)
      have "grows s1 (snd (tryMove w k l s1))" by (simp add: tryMove_snd grows_calls)
      with t Inl Some show ?thesis by (simp add: transitionIssue_def Let_def)
    qed
  qed
  with c1 show ?thesis by (rule first_then_grows)
qed

lemma transitionIssue_grows: "grows s (snd (transitionIssue w k t s))"
  using transitionIssue_first [of w k t s] unfolding grows_iff by blast

lemma loop_body_grows: "grows (proc v) (proc (pass_val (loop_body w i n st v)))"
proof (cases "unmounted w (calls (proc v))")
  case True
  then show ?thesis by (simp add: loop_body_def pass_val_def grows_refl)
next
  case False
  obtain r s1 where t: "transitionIssue w (key i) (WorkflowStep.status st) (proc v) = (r, s1)"
    by (cases "transitionIssue w (key i) (WorkflowStep.status st) (proc v)")
  have g: "grows (proc v) s1" using transitionIssue_grows [of "proc v" w] t by (metis snd_conv)
  have g2: "grows (proc v) (sleep 600 s1)"
    using g grows_calls [of s1 "[Sleep 600]"] by (auto simp: sleep_def intro: grows_trans)
  show ?thesis
  proof (cases r)
    case (Inr u)
    with False t g g2 show ?thesis by (simp add: loop_body_def pass_val_def Let_def)
  next
    case (Inl msg)
    with False t g show ?thesis by (simp add: loop_body_def pass_val_def Let_def)
  qed
qed

lemma loop_body_first:
  assumes "\<not> unmounted w (calls (proc v))"
  shows "\<exists>rest. calls (proc (pass_val (loop_body w i n st v)))
                = calls (proc v) @ move_cmd w (key i) (WorkflowStep.status st) # rest"
proof -
  obtain r s1 where t: "transitionIssue w (key i) (WorkflowStep.status st) (proc v) = (r, s1)"
    by (cases "transitionIssue w (key i) (WorkflowStep.status st) (proc v)")
  from transitionIssue_first [of w "key i" "WorkflowStep.status st" "proc v"] t
  obtain rest where c: "calls s1 = calls (proc v) @ move_cmd w (key i) (WorkflowStep.status st) # rest"
    by auto
  have "grows s1 (proc (pass_val (loop_body w i n st v)))"
  proof (cases r)
    case (Inr u)
    with assms t grows_calls [of s1 "[Sleep 600]"] show ?thesis
      by (simp add: loop_body_def pass_val_def Let_def sleep_def grows_refl)
  next
    case (Inl msg)
    with assms t show ?thesis by (simp add: loop_body_def pass_val_def Let_def grows_refl)
  qed
  with c show ?thesis by (rule first_then_grows)
qed

lemma transition_loop_grows: "grows (proc v) (proc (pass_val (transition_loop w i n steps v)))"
proof (induction steps arbitrary: v)
  case Nil
  then show ?case by (simp add: pass_val_def grows_refl)
next
  case (Cons st steps)
  show ?case
  proof (cases "loop_body w i n st v")
    case (Continue v1)
    with loop_body_grows [of v w i n st] have "grows (proc v) (proc v1)" by (simp add: pass_val_def)
    with Cons.IH [of v1] Continue show ?thesis by (auto intro: grows_trans)
  next
    case (Break v1)
    with loop_body_grows [of v w i n st] show ?thesis by (simp add: pass_val_def)
  next
    case (Return v1)
    with loop_body_grows [of v w i n st] show ?thesis by (simp add: pass_val_def)
  qed
qed

lemma transition_loop_first:
  assumes "\<not> unmounted w (calls (proc v))"
  shows "\<exists>rest. calls (proc (pass_val (transition_loop w i n (st # steps) v)))
                = calls (proc v) @ move_cmd w (key i) (WorkflowStep.status st) # rest"
proof -
  from loop_body_first [OF assms, of i n st] obtain rest where
    c: "calls (proc (pass_val (loop_body w i n st v)))
        = calls (proc v) @ move_cmd w (key i) (WorkflowStep.status st) # rest" by blast
  have "grows (proc (pass_val (loop_body w i n st v)))
              (proc (pass_val (transition_loop w i n (st # steps) v)))"
  proof (cases "loop_body w i n st v")
    case (Continue v1)
    with transition_loop_grows [of v1 w i n steps] show ?thesis by (simp add: pass_val_def)
  qed (simp_all add: pass_val_def grows_refl)
  with c show ?thesis by (rule first_then_grows)
qed

lemma runTransitionLoop_first:
  assumes "getRemainingSteps (status ri) = st # post" and "\<not> unmounted w (calls s)"
  shows "\<exists>rest. calls (snd (runTransitionLoop w ri a s))
                = calls s @ move_cmd w (key ri) (WorkflowStep.status st) # rest"
proof -
  let ?v = "\<lparr> completedSteps = [], currentStatus = status ri,
              view = a\<lparr>transition := Phase_running
                         (status ri @ arrow @ WorkflowStep.status st) []
                         (length (st # post))\<rparr>,
              proc = s \<rparr>"
  have "snd (runTransitionLoop w ri a s)
        = proc (pass_val (transition_loop w ri (length (st # post)) (st # post) ?v))"
    unfolding runTransitionLoop_def assms(1)
    by (cases "transition_loop w ri (length (st # post)) (st # post) ?v")
       (simp_all add: pass_val_def Let_def)
  with transition_loop_first [of w ?v ri "length (st # post)" st post] assms(2)
  show ?thesis by simp
qed

text \<open>The role assignment only adds commands.\<close>

lemma runJira_grows: "grows s (snd (runJira w args s))"
  by (simp add: runJira_snd grows_calls)

lemma load_catalog_grows: "grows s (load_catalog w s)"
  by (auto simp: load_catalog_def grows_def Let_def
           split: sum.splits option.splits json.splits)

lemma resolveFieldId_grows: "grows s (snd (resolveFieldId w f s))"
  using load_catalog_grows [of s w]
  by (auto simp: resolveFieldId_def Let_def grows_refl split: option.splits)

lemma getIssueFieldUser_grows: "grows s (snd (getIssueFieldUser w k f s))"
proof -
  obtain i s1 where r: "resolveFieldId w f s = (i, s1)" by (cases "resolveFieldId w f s")
  have g1: "grows s s1" using resolveFieldId_grows [of s w f] r by simp
  show ?thesis
  proof (cases "truthy_val i")
    case None
    with r g1 show ?thesis by (simp add: getIssueFieldUser_def)
  next
    case (Some fid)
    obtain x s2 where j: "runJira w (view_args k) s1 = (x, s2)"
      by (cases "runJira w (view_args k) s1")
    have "grows s1 s2" using runJira_grows [of s1 w "view_args k"] j by simp
    with g1 have g2: "grows s s2" by (rule grows_trans)
    have "snd (getIssueFieldUser w k f s) = s2"
      using r Some j
      by (auto simp: getIssueFieldUser_def Let_def
               split: sum.splits option.splits json.splits)
    with g2 show ?thesis by simp
  qed
qed

lemma assignIssue_grows: "grows s (snd (assignIssue w k u s))"
  by (auto simp: assignIssue_def grows_def Let_def split: sum.splits)

lemma fetchJiraUsers_grows: "grows s (snd (fetchJiraUsers w url tok s))"
  by (auto simp: fetchJiraUsers_def grows_def Let_def
           split: sum.splits option.splits json.splits)

lemma searchJiraUser_grows: "grows s (snd (searchJiraUser w q s))"
proof (cases "getJiraAuth w")
  case (Inl e)
  then show ?thesis by (simp add: searchJiraUser_def grows_refl)
next
  case (Inr a)
  let ?u1 = "server a @ ''/rest/api/2/user/search?username='' @ encodeURIComponent w q
               @ ''&maxResults=10''"
  let ?u2 = "server a @ ''/rest/api/2/user/search?query='' @ encodeURIComponent w q
               @ ''&maxResults=10''"
  obtain x s1 where f: "fetchJiraUsers w ?u1 (token a) s = (x, s1)"
    by (cases "fetchJiraUsers w ?u1 (token a) s")
  have g1: "grows s s1" using fetchJiraUsers_grows [of s w ?u1 "token a"] f by simp
  have g2: "grows s (snd (fetchJiraUsers w ?u2 (token a) s1))"
    using g1 fetchJiraUsers_grows [of s1 w ?u2 "token a"] by (rule grows_trans)
  show ?thesis
    using Inr f g1 g2 by (cases x) (simp_all add: searchJiraUser_def Let_def)
qed

lemma autoAssignForStatus_grows: "grows s (snd (autoAssignForStatus w k t s))"
proof (cases "map_of ROLE_STATUS_MAP (normalizeStatus t)")
  case None
  then show ?thesis by (simp add: autoAssignForStatus_def grows_refl)
next
  case (Some r)
  obtain x s1 where g: "getIssueFieldUser w k (ROLE_FIELD_NAMES r) s = (x, s1)"
    by (cases "getIssueFieldUser w k (ROLE_FIELD_NAMES r) s")
  have g1: "grows s s1" using getIssueFieldUser_grows [of s w k "ROLE_FIELD_NAMES r"] g by simp
  have as: "\<And>u s'. grows s s' \<Longrightarrow> grows s (snd (assignIssue w k u s'))"
    using assignIssue_grows by (blast intro: grows_trans)
  show ?thesis
  proof (cases x)
    case (Inl e)
    with Some g g1 show ?thesis by (simp add: autoAssignForStatus_def)
  next
    case (Inr fu)
    show ?thesis
    proof (cases fu)
      case (Some u)
      have "snd (autoAssignForStatus w k t s) = snd (assignIssue w k u s1)"
        using \<open>map_of ROLE_STATUS_MAP (normalizeStatus t) = Some r\<close> g Inr Some
        by (simp add: autoAssignForStatus_def split: prod.splits sum.splits)
      with as [OF g1] show ?thesis by simp
    next
      case None
      note m = \<open>map_of ROLE_STATUS_MAP (normalizeStatus t) = Some r\<close>
      show ?thesis
      proof (cases "truthy (getRoleAssignee w r)")
        case False
        with m g Inr None g1 show ?thesis by (simp add: autoAssignForStatus_def Let_def)
      next
        case True
        obtain y s2 where q: "searchJiraUser w (getRoleAssignee w r) s1 = (y, s2)"
          by (cases "searchJiraUser w (getRoleAssignee w r) s1")
        have "grows s1 s2" using searchJiraUser_grows [of s1 w "getRoleAssignee w r"] q by simp
        with g1 have g2: "grows s s2" by (rule grows_trans)
        show ?thesis
        proof (cases y)
          case (Inl e)
          with m g Inr None True q g2 show ?thesis
            by (simp add: autoAssignForStatus_def Let_def)
        next
          case (Inr us)
          show ?thesis
          proof (cases us)
            case Nil
            with m g \<open>x = Inr fu\<close> None True q g2 Inr show ?thesis
              by (simp add: autoAssignForStatus_def Let_def)
          next
            case (Cons user users)
            have "snd (autoAssignForStatus w k t s) = snd (assignIssue w k user s2)"
              using m g \<open>x = Inr fu\<close> None True q Inr Cons
              by (simp add: autoAssignForStatus_def Let_def split: prod.splits sum.splits)
            with as [OF g2] show ?thesis by simp
          qed
        qed
      qed
    qed
  qed
qed

text \<open>The chain of the status board starts with the request for its first stage.\<close>

lemma board_body_grows: "grows (process b) (process (pass_val (board_body w i st b)))"
proof -
  obtain r s1 where t: "transitionIssue w (key i) (WorkflowStep.status st) (process b) = (r, s1)"
    by (cases "transitionIssue w (key i) (WorkflowStep.status st) (process b)")
  have g: "grows (process b) s1"
    using transitionIssue_grows [of "process b" w "key i" "WorkflowStep.status st"] t by simp
  show ?thesis
  proof (cases r)
    case (Inr u)
    let ?s2 = "snd (autoAssignForStatus w (key i) (WorkflowStep.status st) s1)"
    have "grows s1 ?s2" by (rule autoAssignForStatus_grows)
    with g have "grows (process b) ?s2" by (rule grows_trans)
    then have "grows (process b) (sleep 600 ?s2)"
      using grows_calls [of ?s2 "[Sleep 600]"] by (auto simp: sleep_def intro: grows_trans)
    with t Inr show ?thesis by (simp add: board_body_def pass_val_def Let_def)
  next
    case (Inl msg)
    with t g show ?thesis by (simp add: board_body_def pass_val_def Let_def)
  qed
qed

lemma board_body_first:
  "\<exists>rest. calls (process (pass_val (board_body w i st b)))
           = calls (process b) @ move_cmd w (key i) (WorkflowStep.status st) # rest"
proof -
  obtain r s1 where t: "transitionIssue w (key i) (WorkflowStep.status st) (process b) = (r, s1)"
    by (cases "transitionIssue w (key i) (WorkflowStep.status st) (process b)")
  from transitionIssue_first [of w "key i" "WorkflowStep.status st" "process b"] t
  obtain rest where
    c: "calls s1 = calls (process b) @ move_cmd w (key i) (WorkflowStep.status st) # rest"
    by auto
  have "grows s1 (process (pass_val (board_body w i st b)))"
  proof (cases r)
    case (Inr u)
    let ?s2 = "snd (autoAssignForStatus w (key i) (WorkflowStep.status st) s1)"
    have "grows s1 ?s2" by (rule autoAssignForStatus_grows)
    then have "grows s1 (sleep 600 ?s2)"
      using grows_calls [of ?s2 "[Sleep 600]"] by (auto simp: sleep_def intro: grows_trans)
    with t Inr show ?thesis by (simp add: board_body_def pass_val_def Let_def)
  next
    case (Inl msg)
    with t show ?thesis by (simp add: board_body_def pass_val_def Let_def grows_refl)
  qed
  with c show ?thesis by (rule first_then_grows)
qed

lemma board_loop_grows: "grows (process b) (process (pass_val (board_loop w i steps b)))"
proof (induction steps arbitrary: b)
  case Nil
  then show ?case by (simp add: pass_val_def grows_refl)
next
  case (Cons st steps)
  show ?case
  proof (cases "board_body w i st b")
    case (Continue b1)
    with board_body_grows [of b w i st] have "grows (process b) (process b1)"
      by (simp add: pass_val_def)
    with Cons.IH [of b1] Continue show ?thesis by (auto intro: grows_trans)
  next
    case (Break b1)
    with board_body_grows [of b w i st] show ?thesis by (simp add: pass_val_def)
  next
    case (Return b1)
    with board_body_grows [of b w i st] show ?thesis by (simp add: pass_val_def)
  qed
qed

lemma board_loop_first:
  "\<exists>rest. calls (process (pass_val (board_loop w i (st # steps) b)))
           = calls (process b) @ move_cmd w (key i) (WorkflowStep.status st) # rest"
proof -
  from board_body_first [of w i st b] obtain rest where
    c: "calls (process (pass_val (board_body w i st b)))
        = calls (process b) @ move_cmd w (key i) (WorkflowStep.status st) # rest" by blast
  have "grows (process (pass_val (board_body w i st b)))
              (process (pass_val (board_loop w i (st # steps) b)))"
  proof (cases "board_body w i st b")
    case (Continue b1)
    with board_loop_grows [of b1 w i steps] show ?thesis by (simp add: pass_val_def)
  qed (simp_all add: pass_val_def grows_refl)
  with c show ?thesis by (rule first_then_grows)
qed

lemma doTransitions_first:
  assumes "getRemainingSteps (status ri) = st # post"
  shows "\<exists>rest. calls (snd (doTransitions w ri a s))
                = calls s @ move_cmd w (key ri) (WorkflowStep.status st) # rest"
proof -
  let ?b = "\<lparr> current = status ri,
              board = showToast Animated (''Moving '' @ key ri @ '' to Done'')
                        (string_of_nat (length (st # post)) @ '' transitions'' @ ellipsis) a,
              process = s \<rparr>"
  have "snd (doTransitions w ri a s) = process (pass_val (board_loop w ri (st # post) ?b))"
    unfolding doTransitions_def assms(1)
    by (cases "board_loop w ri (st # post) ?b")
       (simp_all add: pass_val_def Let_def board_done_def)
  with board_loop_first [of w ri st post ?b] show ?thesis by simp
qed

section \<open>Resuming a chain\<close>

text \<open>What a chain leaves behind when a request fails for missing fields: a form on top.\<close>

lemma runTransitionLoop_suspended:
  assumes "getRemainingSteps (status i) = pre @ st # post"
    and "parseMissingFieldsFromError msg \<noteq> []"
    and "passed w i (length (pre @ st # post)) pre
          \<lparr> completedSteps = [], currentStatus = status i,
            view = a\<lparr>transition := Phase_running
                       (status i @ arrow @ WorkflowStep.status (hd (pre @ [st]))) []
                       (length (pre @ st # post))\<rparr>,
            proc = s \<rparr> = Some v1"
    and "\<not> unmounted w (calls (proc v1))"
    and "transitionIssue w (key i) (WorkflowStep.status st) (proc v1) = (Inl msg, s2)"
  shows "snd (runTransitionLoop w i a s) = s2"
    and "nav (fst (runTransitionLoop w i a s))
         = \<lparr> issueKey = key i, missingFields = parseMissingFieldsFromError msg,
             onComplete = Resume_runTransitionLoop (i\<lparr>status := reached (status i) pre\<rparr>),
             submitting = False \<rparr> # nav a"
proof -
  let ?n = "length (pre @ st # post)"
  let ?a1 = "a\<lparr>transition := Phase_running
                       (status i @ arrow @ WorkflowStep.status (hd (pre @ [st]))) [] ?n\<rparr>"
  let ?v0 = "\<lparr> completedSteps = [], currentStatus = status i, view = ?a1, proc = s \<rparr>"
  have p: "passed w i ?n pre ?v0 = Some v1" using assms(3) by simp
  have hd: "hd (pre @ st # post) = hd (pre @ [st])" by (cases pre) auto
  have vars: "currentStatus v1 = reached (status i) pre" "nav (view v1) = nav a"
    using passed_vars [OF p] by simp_all
  obtain v2 where body: "loop_body w i ?n st v1 = Return v2" and "proc v2 = s2"
    and "nav (view v2)
         = \<lparr> issueKey = key i, missingFields = parseMissingFieldsFromError msg,
             onComplete = Resume_runTransitionLoop (i\<lparr>status := currentStatus v1\<rparr>),
             submitting = False \<rparr> # nav (view v1)"
    using loop_body_rejected [OF assms(4,5), of ?n] assms(2) by simp
  note v2 = this(2,3)
  have loop: "transition_loop w i ?n (pre @ st # post) ?v0 = Return v2"
    unfolding loop_after_passed [OF p] using body by simp
  have run: "runTransitionLoop w i a s = (view v2, proc v2)"
    using loop by (intro runTransitionLoop_Return [OF assms(1)]) (simp_all add: hd)
  show "snd (runTransitionLoop w i a s) = s2" using run v2 by simp
  show "nav (fst (runTransitionLoop w i a s))
         = \<lparr> issueKey = key i, missingFields = parseMissingFieldsFromError msg,
             onComplete = Resume_runTransitionLoop (i\<lparr>status := reached (status i) pre\<rparr>),
             submitting = False \<rparr> # nav a"
    using run v2 vars by simp
qed

lemma doTransitions_suspended:
  assumes "getRemainingSteps (status i) = pre @ st # post"
    and "parseMissingFieldsFromError msg \<noteq> []"
    and "board_passed w i pre
          \<lparr> current = status i,
            board = showToast Animated (''Moving '' @ key i @ '' to Done'')
                      (string_of_nat (length (pre @ st # post)) @ '' transitions'' @ ellipsis) a,
            process = s \<rparr> = Some b1"
    and "transitionIssue w (key i) (WorkflowStep.status st) (process b1) = (Inl msg, s2)"
  shows "snd (doTransitions w i a s) = s2"
    and "nav (fst (doTransitions w i a s))
         = \<lparr> issueKey = key i, missingFields = parseMissingFieldsFromError msg,
             onComplete = Resume_moveToDone (i\<lparr>status := reached (status i) pre\<rparr>),
             submitting = False \<rparr> # nav a"
proof -
  let ?n = "length (pre @ st # post)"
  let ?t = "\<lparr> style = Animated, title = ''Moving '' @ key i @ '' to Done'',
              message = string_of_nat ?n @ '' transitions'' @ ellipsis, hidden = False \<rparr>"
  let ?a1 = "showToast Animated (''Moving '' @ key i @ '' to Done'')
                      (string_of_nat ?n @ '' transitions'' @ ellipsis) a"
  let ?b0 = "\<lparr> current = status i, board = ?a1, process = s \<rparr>"
  have p: "board_passed w i pre ?b0 = Some b1" using assms(3) by simp
  have vars: "current b1 = reached (status i) pre" "board b1 = ?a1"
    using board_passed_vars [OF p] by simp_all
  have bd: "board b1 = a\<lparr>toasts := toasts a @ [?t]\<rparr>"
    using vars(2) by (simp add: showToast_def)
  obtain b2 where body: "board_body w i st b1 = Return b2" and "process b2 = s2"
    and "nav (board b2)
         = \<lparr> issueKey = key i, missingFields = parseMissingFieldsFromError msg,
             onComplete = Resume_moveToDone (i\<lparr>status := current b1\<rparr>),
             submitting = False \<rparr> # nav a"
    using board_body_rejected [OF assms(4) bd] assms(2) by simp
  note b2 = this(2,3)
  have loop: "board_loop w i (pre @ st # post) ?b0 = Return b2"
    unfolding board_after_passed [OF p] using body by simp
  have run: "doTransitions w i a s = (board b2, process b2)"
    unfolding doTransitions_def assms(1) Let_def using loop by simp
  show "snd (doTransitions w i a s) = s2" using run b2 by simp
  show "nav (fst (doTransitions w i a s))
         = \<lparr> issueKey = key i, missingFields = parseMissingFieldsFromError msg,
             onComplete = Resume_moveToDone (i\<lparr>status := reached (status i) pre\<rparr>),
             submitting = False \<rparr> # nav a"
    using run b2 vars by simp
qed

text \<open>
  Submitting the form on top, with a value for one of its fields at least and an update
  that the tracker accepts, closes the form and calls what the form was given to call.
\<close>

lemma handleSubmit_resumes:
  assumes "nav a1 = f # below"
    and "collect_fields values (missingFields f) [] \<noteq> []"
    and "setIssueCustomFields w (issueKey f) (collect_fields values (missingFields f) []) s
         = (Inr u, s3)"
  shows "\<exists>a2. nav a2 = below
            \<and> handleSubmit w values a1 s = run_continuation w (onComplete f) a2 s3"
proof -
  let ?a2 = "(upd_toast (\<lambda>t. t\<lparr>style := Success, title := ''Fields updated'',
                 message := join_with '', ''
                   (map (\<lambda>(k, v). k @ '': '' @ v)
                      (collect_fields values (missingFields f) []))\<rparr>)
               (showToast Animated (''Setting fields'' @ ellipsis) [] (set_submitting True a1)))
             \<lparr>nav := below\<rparr>"
  have "handleSubmit w values a1 s = run_continuation w (onComplete f) ?a2 s3"
    using assms by (simp add: handleSubmit_def Let_def)
  moreover have "nav ?a2 = below" by simp
  ultimately show ?thesis by blast
qed

text \<open>
  The check of the dev dates either goes on to the action, or shows a form that calls
  the action once it is filled in.
\<close>

lemma nav_showToast: "nav (showToast st ti m a) = nav a"
  by (simp add: showToast_def)

lemma nav_upd_toast: "nav (upd_toast f a) = nav a"
  by (simp add: upd_toast_def)

lemma ensureDevDatesAndRun_outcome:
  "(\<exists>b s4. nav b = nav a \<and> ensureDevDatesAndRun w k c act a s = act b s4)
   \<or> (\<exists>ms. nav (fst (ensureDevDatesAndRun w k c act a s))
            = \<lparr> issueKey = k, missingFields = ms, onComplete = c, submitting = False \<rparr> # nav a)"
proof (cases "autoFillDevDates w k s")
  case (Pair r s1)
  show ?thesis
  proof (cases r)
    case (Inl e)
    let ?b = "upd_toast (\<lambda>t. t\<lparr>style := Failure,
                                 title := ''Auto-fill failed, continuing'' @ ellipsis,
                                 message := e\<rparr>)
                (showToast Animated (''Checking required fields'' @ ellipsis) [] a)"
    have "nav ?b = nav a" by (simp add: nav_showToast nav_upd_toast)
    moreover have "ensureDevDatesAndRun w k c act a s = act ?b s1"
      using Pair Inl by (simp add: ensureDevDatesAndRun_def Let_def)
    ultimately show ?thesis by blast
  next
    case (Inr res)
    let ?a2 = "if length (filled res) > 0
               then upd_toast (\<lambda>t. t\<lparr>title := ''Auto-filled dates'',
                                      message := join_with '', '' (filled res)\<rparr>)
                      (showToast Animated (''Checking required fields'' @ ellipsis) [] a)
               else showToast Animated (''Checking required fields'' @ ellipsis) [] a"
    let ?b = "upd_toast (\<lambda>t. t\<lparr>hidden := True\<rparr>) ?a2"
    have n: "nav ?b = nav a" by (simp add: nav_showToast nav_upd_toast)
    show ?thesis
    proof (cases "stillMissing res = []")
      case True
      have "ensureDevDatesAndRun w k c act a s = act ?b s1"
        using Pair Inr True by (simp add: ensureDevDatesAndRun_def Let_def)
      with n show ?thesis by blast
    next
      case False
      have "ensureDevDatesAndRun w k c act a s = (push_form k (stillMissing res) c ?b, s1)"
        using Pair Inr False by (simp add: ensureDevDatesAndRun_def Let_def)
      then have "nav (fst (ensureDevDatesAndRun w k c act a s))
            = \<lparr> issueKey = k, missingFields = stillMissing res, onComplete = c,
                submitting = False \<rparr> # nav a"
        using n by (simp add: push_form_def)
      then show ?thesis by blast
    qed
  qed
qed

lemma moveToDone_resumed:
  assumes "getRemainingSteps (status ri) = st # post"
  shows "moveToDone w ri a s
         = ensureDevDatesAndRun w (key ri) (Resume_doTransitions ri) (doTransitions w ri) a s"
  using assms by (simp add: moveToDone_def Let_def)

text \<open>
  Claim C2. Let the remaining steps of an issue be \<open>pre\<close>, then \<open>st\<close>, then \<open>post\<close>; let
  the chain pass the steps \<open>pre\<close>, and let the transition request for \<open>st\<close> fail with a
  message that names missing fields. The chain then stops with the form for these
  fields on top. When the form is submitted with a value for one of the fields at least
  and the tracker accepts the update, the chain is run again for the issue at the
  status reached after \<open>pre\<close> (the starting status when \<open>pre\<close> is empty): its remaining
  steps are \<open>st\<close>, then \<open>post\<close>, which is not the list the first run started with unless
  \<open>pre\<close> is empty. In the move-to-done view the command that follows the update is the
  transition request for \<open>st\<close>, as long as the view is open. On the status board the
  dev dates are checked first; then either the chain runs from that status, or a form
  for the dev dates is shown that runs it from that status when it is completed; and a
  chain of the board from that status starts with the transition request for \<open>st\<close>.
\<close>

theorem chain_resumes_at_failed_stage:
  assumes "getRemainingSteps (status i) = pre @ st # post"
    and "parseMissingFieldsFromError msg \<noteq> []"
    and "collect_fields values (parseMissingFieldsFromError msg) [] \<noteq> []"
    and "ri = i\<lparr>status := reached (status i) pre\<rparr>"
  shows
    "getRemainingSteps (status ri) = st # post
   \<and> (pre \<noteq> [] \<longrightarrow> getRemainingSteps (status ri) \<noteq> getRemainingSteps (status i))
   \<and> (\<forall>v1 s2 u s3.
        passed w i (length (pre @ st # post)) pre
          \<lparr> completedSteps = [], currentStatus = status i,
            view = a\<lparr>transition := Phase_running
                       (status i @ arrow @ WorkflowStep.status (hd (pre @ [st]))) []
                       (length (pre @ st # post))\<rparr>,
            proc = s \<rparr> = Some v1
        \<and> \<not> unmounted w (calls (proc v1))
        \<and> transitionIssue w (key i) (WorkflowStep.status st) (proc v1) = (Inl msg, s2)
        \<and> setIssueCustomFields w (key i)
             (collect_fields values (parseMissingFieldsFromError msg) []) s2 = (Inr u, s3)
        \<and> \<not> unmounted w (calls s3)
        \<longrightarrow> snd (runTransitionLoop w i a s) = s2
          \<and> (\<exists>a2. nav a2 = nav a
                \<and> handleSubmit w values (fst (runTransitionLoop w i a s)) s2
                  = runTransitionLoop w ri a2 s3)
          \<and> (\<exists>rest. calls (snd (handleSubmit w values (fst (runTransitionLoop w i a s)) s2))
                     = calls s3 @ move_cmd w (key i) (WorkflowStep.status st) # rest))
   \<and> (\<forall>b1 s2 u s3.
        board_passed w i pre
          \<lparr> current = status i,
            board = showToast Animated (''Moving '' @ key i @ '' to Done'')
                      (string_of_nat (length (pre @ st # post)) @ '' transitions'' @ ellipsis) a,
            process = s \<rparr> = Some b1
        \<and> transitionIssue w (key i) (WorkflowStep.status st) (process b1) = (Inl msg, s2)
        \<and> setIssueCustomFields w (key i)
             (collect_fields values (parseMissingFieldsFromError msg) []) s2 = (Inr u, s3)
        \<longrightarrow> snd (doTransitions w i a s) = s2
          \<and> ((\<exists>a3 s4. handleSubmit w values (fst (doTransitions w i a s)) s2
                        = doTransitions w ri a3 s4)
             \<or> (\<exists>ms. nav (fst (handleSubmit w values (fst (doTransitions w i a s)) s2))
                      = \<lparr> issueKey = key i, missingFields = ms,
                          onComplete = Resume_doTransitions ri, submitting = False \<rparr> # nav a)))
   \<and> (\<forall>a3 s4. \<exists>rest. calls (snd (doTransitions w ri a3 s4))
                      = calls s4 @ move_cmd w (key i) (WorkflowStep.status st) # rest)"
proof -
  let ?ms = "parseMissingFieldsFromError msg"
  let ?fs = "collect_fields values ?ms []"
  have rem: "getRemainingSteps (status ri) = st # post"
    using remaining_after_prefix [OF assms(1)] assms(4) by simp
  have k: "key ri = key i" using assms(4) by simp
  have differs: "pre \<noteq> [] \<longrightarrow> getRemainingSteps (status ri) \<noteq> getRemainingSteps (status i)"
    unfolding rem assms(1) by (metis append_self_conv2)
  have view: "snd (runTransitionLoop w i a s) = s2
          \<and> (\<exists>a2. nav a2 = nav a
                \<and> handleSubmit w values (fst (runTransitionLoop w i a s)) s2
                  = runTransitionLoop w ri a2 s3)
          \<and> (\<exists>rest. calls (snd (handleSubmit w values (fst (runTransitionLoop w i a s)) s2))
                     = calls s3 @ move_cmd w (key i) (WorkflowStep.status st) # rest)"
    if p: "passed w i (length (pre @ st # post)) pre
          \<lparr> completedSteps = [], currentStatus = status i,
            view = a\<lparr>transition := Phase_running
                       (status i @ arrow @ WorkflowStep.status (hd (pre @ [st]))) []
                       (length (pre @ st # post))\<rparr>,
            proc = s \<rparr> = Some v1"
      and um: "\<not> unmounted w (calls (proc v1))"
      and tr: "transitionIssue w (key i) (WorkflowStep.status st) (proc v1) = (Inl msg, s2)"
      and up: "setIssueCustomFields w (key i) ?fs s2 = (Inr u, s3)"
      and um3: "\<not> unmounted w (calls s3)"
    for v1 s2 u s3
  proof -
    let ?f = "\<lparr> issueKey = key i, missingFields = ?ms,
                onComplete = Resume_runTransitionLoop ri, submitting = False \<rparr>"
    have s: "snd (runTransitionLoop w i a s) = s2"
      and n: "nav (fst (runTransitionLoop w i a s)) = ?f # nav a"
      using runTransitionLoop_suspended [OF assms(1,2) p um tr] assms(4) by simp_all
    from handleSubmit_resumes [OF n, of "values" w s2 u s3] assms(3) up
    obtain a2 where a2: "nav a2 = nav a"
      and h: "handleSubmit w values (fst (runTransitionLoop w i a s)) s2
              = runTransitionLoop w ri a2 s3"
      by (auto simp: run_continuation_def)
    from runTransitionLoop_first [OF rem um3, of a2] h k
    have "\<exists>rest. calls (snd (handleSubmit w values (fst (runTransitionLoop w i a s)) s2))
                     = calls s3 @ move_cmd w (key i) (WorkflowStep.status st) # rest"
      by simp
    with s a2 h show ?thesis by blast
  qed
  have brd: "snd (doTransitions w i a s) = s2
          \<and> ((\<exists>a3 s4. handleSubmit w values (fst (doTransitions w i a s)) s2
                        = doTransitions w ri a3 s4)
             \<or> (\<exists>ms. nav (fst (handleSubmit w values (fst (doTransitions w i a s)) s2))
                      = \<lparr> issueKey = key i, missingFields = ms,
                          onComplete = Resume_doTransitions ri, submitting = False \<rparr> # nav a))"
    if p: "board_passed w i pre
          \<lparr> current = status i,
            board = showToast Animated (''Moving '' @ key i @ '' to Done'')
                      (string_of_nat (length (pre @ st # post)) @ '' transitions'' @ ellipsis) a,
            process = s \<rparr> = Some b1"
      and tr: "transitionIssue w (key i) (WorkflowStep.status st) (process b1) = (Inl msg, s2)"
      and up: "setIssueCustomFields w (key i) ?fs s2 = (Inr u, s3)"
    for b1 s2 u s3
  proof -
    let ?f = "\<lparr> issueKey = key i, missingFields = ?ms,
                onComplete = Resume_moveToDone ri, submitting = False \<rparr>"
    have s: "snd (doTransitions w i a s) = s2"
      and n: "nav (fst (doTransitions w i a s)) = ?f # nav a"
      using doTransitions_suspended [OF assms(1,2) p tr] assms(4) by simp_all
    from handleSubmit_resumes [OF n, of "values" w s2 u s3] assms(3) up
    obtain a2 where a2: "nav a2 = nav a"
      and h: "handleSubmit w values (fst (doTransitions w i a s)) s2 = moveToDone w ri a2 s3"
      by (auto simp: run_continuation_def)
    have m: "handleSubmit w values (fst (doTransitions w i a s)) s2
             = ensureDevDatesAndRun w (key i) (Resume_doTransitions ri) (doTransitions w ri) a2 s3"
      using h moveToDone_resumed [OF rem, of w a2 s3] k by simp
    from ensureDevDatesAndRun_outcome
           [of a2 w "key i" "Resume_doTransitions ri" "doTransitions w ri" s3]
    have "(\<exists>a3 s4. handleSubmit w values (fst (doTransitions w i a s)) s2
                        = doTransitions w ri a3 s4)
             \<or> (\<exists>ms. nav (fst (handleSubmit w values (fst (doTransitions w i a s)) s2))
                      = \<lparr> issueKey = key i, missingFields = ms,
                          onComplete = Resume_doTransitions ri, submitting = False \<rparr> # nav a)"
      unfolding m a2 by blast
    with s show ?thesis by blast
  qed
  have first: "\<exists>rest. calls (snd (doTransitions w ri a3 s4))
                      = calls s4 @ move_cmd w (key i) (WorkflowStep.status st) # rest"
    for a3 s4
    using doTransitions_first [OF rem, of w a3 s4] k by simp
  from rem differs view brd first show ?thesis by blast
qed

lemmas brand_ev = brand_world_def asks_Brand_def brand_catalog_def tracker_prefs_def no_prefs_def
  move_cmd_def move_args_def getJiraCliPath_def is_update_def truthy_def

lemma brand_message:
  "parseAvailableTransitions ''jira CLI (exit 1): Error: please fill in Brand'' = []"
  "parseMissingFieldsFromError ''jira CLI (exit 1): Error: please fill in Brand'' = [''Brand'']"
  by (simp_all add: parseAvailableTransitions_def match_available_at_def
                    parseMissingFieldsFromError_def match_fill_in_at_def fill_in_at_def
                    is_line_end_def is_word_def strip_trailing_dots_def truthy_def str_ev)

lemma brand_value:
  "collect_fields [(''Brand'', TextValue ''Acme'')] [''Brand''] [] = [(''Brand'', ''Acme'')]"
  by (simp add: obj_set_def truthy_def str_ev)

lemma brand_update:
  "setIssueCustomFields brand_world ''AB-1'' [(''Brand'', ''Acme'')] brand_asked
   = (Inr (), brand_given)"
  by (simp add: setIssueCustomFields_def getJiraAuth_def strip_trailing_slashes_def
                resolveFieldId_def load_catalog_def js_get_def truthy_opt_def truthy_val_def
                obj_set_def update_body_def split_on_def startsWith_def Let_def
                brand_asked_def brand_given_def brand_ev field_ev str_ev)

lemma brand_states:
  "brand_asked = \<lparr> calls = [move_cmd brand_world ''AB-1'' ''Delivering'', Sleep 600,
                            move_cmd brand_world ''AB-1'' ''Done''], cachedFieldMap = None \<rparr>"
  "list_ex is_update (calls brand_given)"
  by (simp_all add: brand_asked_def brand_given_def brand_ev)

lemma brand_dates:
  "autoFillDevDates brand_world ''AB-1'' s
   = (Inr \<lparr> filled = [], stillMissing = [] \<rparr>,
      s\<lparr>calls := calls s @ [Exec ''jira issue view AB-1 --raw'']\<rparr>)"
  by (simp add: autoFillDevDates_def getIssueRawFields_def runJira_def view_args_def
                js_get_def field_string_def issue_dated_def raw_at_def truthy_opt_def
                truthy_val_def Let_def brand_ev field_ev)

lemma remaining_Delivering: "getRemainingSteps ''Delivering'' = [WORKFLOW ! 10]"
  by (simp add: wf_ev str_ev)

text \<open>In that world, a chain from \<open>Delivering\<close> that starts after an update runs to the end.\<close>

lemma brand_accepted:
  assumes "list_ex is_update (calls s)"
  shows "transitionIssue brand_world ''AB-1'' ''Done'' s
         = (Inr (), s\<lparr>calls := calls s @ [move_cmd brand_world ''AB-1'' ''Done'']\<rparr>)"
proof -
  have r: "respond brand_world (calls s @ [move_cmd brand_world ''AB-1'' ''Done'']) = Inr ''{}''"
    using assms by (simp add: brand_ev)
  have nf: "\<not> mentions_failure ''{}''" by (simp add: mentions_failure_def str_ev)
  show ?thesis by (rule transitionIssue_accepted [OF r nf])
qed

lemma brand_view_resumed:
  assumes "list_ex is_update (calls s)"
  shows "calls (snd (runTransitionLoop brand_world (issue_at ''Delivering'') a s))
         = calls s @ [move_cmd brand_world ''AB-1'' ''Done'']"
proof -
  have um: "\<And>h. \<not> unmounted brand_world h" by (simp add: brand_world_def)
  show ?thesis
    by (simp add: runTransitionLoop_def loop_body_def remaining_Delivering stage_names um
                  brand_accepted [OF assms] issue_at_def Let_def)
qed

lemma brand_board_resumed:
  assumes "list_ex is_update (calls s)"
  shows "calls (snd (moveToDone brand_world (issue_at ''Delivering'') a s))
         = calls s @ [Exec ''jira issue view AB-1 --raw'',
                      move_cmd brand_world ''AB-1'' ''Done'', Sleep 600]"
proof -
  let ?s4 = "s\<lparr>calls := calls s @ [Exec ''jira issue view AB-1 --raw'']\<rparr>"
  have u: "list_ex is_update (calls ?s4)" using assms by simp
  have na: "\<And>s'. autoAssignForStatus brand_world ''AB-1'' ''Done'' s'
                  = (Inr \<lparr> assigned = False, assignedName = None \<rparr>, s')"
    by (simp add: autoAssignForStatus_def ROLE_STATUS_MAP_def normalizeStatus_def
                  STATUS_ALIASES_def str_ev)
  have k: "key (issue_at ''Delivering'') = ''AB-1''" "status (issue_at ''Delivering'') = ''Delivering''"
    by (simp_all add: issue_at_def)
  have d: "\<And>b. calls (snd (doTransitions brand_world (issue_at ''Delivering'') b ?s4))
              = calls ?s4 @ [move_cmd brand_world ''AB-1'' ''Done'', Sleep 600]"
    by (simp add: doTransitions_def board_body_def board_done_def remaining_Delivering
                  stage_names brand_accepted [OF u] na sleep_def k Let_def)
  show ?thesis
    by (simp add: moveToDone_def ensureDevDatesAndRun_def remaining_Delivering brand_dates d
                  k Let_def)
qed

theorem chain_resumes_at_failed_stage_witness:
  "getRemainingSteps ''Delivering'' = [WORKFLOW ! 10]
   \<and> snd (runTransitionLoop brand_world (issue_at ''Regression'') (views_of ''Regression'')
            fresh_io) = brand_asked
   \<and> calls (snd (handleSubmit brand_world [(''Brand'', TextValue ''Acme'')]
                   (fst (runTransitionLoop brand_world (issue_at ''Regression'')
                           (views_of ''Regression'') fresh_io))
                   brand_asked))
     = calls brand_given @ [move_cmd brand_world ''AB-1'' ''Done'']
   \<and> snd (doTransitions brand_world (issue_at ''Regression'') (board_of ''Regression'')
            fresh_io) = brand_asked
   \<and> calls (snd (handleSubmit brand_world [(''Brand'', TextValue ''Acme'')]
                   (fst (doTransitions brand_world (issue_at ''Regression'')
                           (board_of ''Regression'') fresh_io))
                   brand_asked))
     = calls brand_given @ [Exec ''jira issue view AB-1 --raw'',
                            move_cmd brand_world ''AB-1'' ''Done'', Sleep 600]"
proof -
  let ?w = brand_world
  let ?i = "issue_at ''Regression''"
  let ?ri = "issue_at ''Delivering''"
  let ?a = "views_of ''Regression''"
  let ?b = "board_of ''Regression''"
  let ?vals = "[(''Brand'', TextValue ''Acme'')]"
  let ?msg = "''jira CLI (exit 1): Error: please fill in Brand''"
  let ?s1 = "\<lparr> calls = [move_cmd ?w ''AB-1'' ''Delivering'', Sleep 600], cachedFieldMap = None \<rparr>"
  have rem: "getRemainingSteps (status ?i) = [WORKFLOW ! 9] @ WORKFLOW ! 10 # []"
    using remaining_Regression by (simp add: issue_at_def)
  have miss: "parseMissingFieldsFromError ?msg \<noteq> []" by (simp add: brand_message)
  have vals: "collect_fields ?vals (parseMissingFieldsFromError ?msg) [] \<noteq> []"
    unfolding brand_message brand_value by simp
  have ri: "?ri = ?i\<lparr>status := reached (status ?i) [WORKFLOW ! 9]\<rparr>"
    by (simp add: issue_at_def reached_def stage_names)
  have k: "key ?i = ''AB-1''" "status ?i = ''Regression''" by (simp_all add: issue_at_def)
  have um: "\<And>h. \<not> unmounted ?w h" by (simp add: brand_world_def)
  have rD: "\<And>h. respond ?w (h @ [move_cmd ?w ''AB-1'' ''Delivering'']) = Inr ''{}''"
    by (simp add: brand_ev)
  have rX: "respond ?w (calls ?s1 @ [move_cmd ?w ''AB-1'' ''Done''])
            = Inl ''Error: please fill in Brand''"
    by (simp add: brand_ev)
  have nf: "\<not> mentions_failure ''{}''" by (simp add: mentions_failure_def str_ev)
  have nm: "findMatchingTransition ''Done''
              (parseAvailableTransitions
                 (''jira CLI (exit 1): '' @ strip_ansi ''Error: please fill in Brand'')) = None"
    by (simp add: brand_message findMatchingTransition_def truthy_opt_def Let_def)
  have t1: "transitionIssue ?w ''AB-1'' ''Delivering'' fresh_io
            = (Inr (), \<lparr> calls = [move_cmd ?w ''AB-1'' ''Delivering''], cachedFieldMap = None \<rparr>)"
    using transitionIssue_accepted [OF rD nf, of "fresh_io"] by (simp add: fresh_io_def)
  have t2: "transitionIssue ?w ''AB-1'' ''Done'' ?s1 = (Inl ?msg, brand_asked)"
    using transitionIssue_rejected [OF rX nm no_fallbacks(3)] by (simp add: brand_states)
  have up: "setIssueCustomFields ?w ''AB-1''
              (collect_fields ?vals (parseMissingFieldsFromError ?msg) []) brand_asked
            = (Inr (), brand_given)"
    unfolding brand_message brand_value by (rule brand_update)
  have p1: "passed ?w ?i (length ([WORKFLOW ! 9] @ WORKFLOW ! 10 # [])) [WORKFLOW ! 9]
          \<lparr> completedSteps = [], currentStatus = status ?i,
            view = ?a\<lparr>transition := Phase_running
                       (status ?i @ arrow @ WorkflowStep.status (hd ([WORKFLOW ! 9] @ [WORKFLOW ! 10]))) []
                       (length ([WORKFLOW ! 9] @ WORKFLOW ! 10 # []))\<rparr>,
            proc = fresh_io \<rparr>
        = Some \<lparr> completedSteps = [step_label (WORKFLOW ! 9)], currentStatus = ''Delivering'',
                 view = ?a\<lparr>transition := Phase_running (''Regression'' @ arrow @ ''Delivering'') [] 2,
                          toasts := [\<lparr> style = Success, title = ''Done: Delivering'',
                                       message = ''Continuing'' @ ellipsis, hidden = False \<rparr>]\<rparr>,
                 proc = ?s1 \<rparr>"
    by (simp add: loop_body_def um k stage_names t1 upd_toast_shown sleep_def views_of_def Let_def)
  have b1: "board_passed ?w ?i [WORKFLOW ! 9]
          \<lparr> current = status ?i,
            board = showToast Animated (''Moving '' @ key ?i @ '' to Done'')
                      (string_of_nat (length ([WORKFLOW ! 9] @ WORKFLOW ! 10 # [])) @ '' transitions'' @ ellipsis) ?b,
            process = fresh_io \<rparr>
        = Some \<lparr> current = ''Delivering'',
            board = showToast Animated (''Moving '' @ key ?i @ '' to Done'')
                      (string_of_nat (length ([WORKFLOW ! 9] @ WORKFLOW ! 10 # [])) @ '' transitions'' @ ellipsis) ?b,
            process = ?s1 \<rparr>"
    by (simp add: board_body_def k stage_names t1 not_assigned sleep_def Let_def)
  note T = chain_resumes_at_failed_stage [OF rem miss vals ri]
  have R: "getRemainingSteps ''Delivering'' = [WORKFLOW ! 10]"
    using T [of ?w ?a fresh_io] by (simp add: issue_at_def)
  from T [of ?w ?a fresh_io] p1 um t2 up k stage_names
  have V: "snd (runTransitionLoop ?w ?i ?a fresh_io) = brand_asked
          \<and> (\<exists>a2. nav a2 = nav ?a
                \<and> handleSubmit ?w ?vals (fst (runTransitionLoop ?w ?i ?a fresh_io)) brand_asked
                  = runTransitionLoop ?w ?ri a2 brand_given)"
    by simp
  then obtain a2 where
    h: "handleSubmit ?w ?vals (fst (runTransitionLoop ?w ?i ?a fresh_io)) brand_asked
        = runTransitionLoop ?w ?ri a2 brand_given"
    by blast
  have V2: "calls (snd (handleSubmit ?w ?vals (fst (runTransitionLoop ?w ?i ?a fresh_io))
                          brand_asked))
            = calls brand_given @ [move_cmd ?w ''AB-1'' ''Done'']"
    unfolding h by (rule brand_view_resumed [OF brand_states(2)])
  from T [of ?w ?b fresh_io] b1 t2 up k stage_names
  have B: "snd (doTransitions ?w ?i ?b fresh_io) = brand_asked" by simp
  let ?f = "\<lparr> issueKey = ''AB-1'', missingFields = [''Brand''],
               onComplete = Resume_moveToDone ?ri, submitting = False \<rparr>"
  have n: "nav (fst (doTransitions ?w ?i ?b fresh_io)) = ?f # nav ?b"
    using doTransitions_suspended(2) [OF rem miss b1] t2 k stage_names ri
    by (simp add: brand_message)
  have sel: "missingFields ?f = [''Brand'']" "issueKey ?f = ''AB-1''" by simp_all
  have c2: "collect_fields ?vals (missingFields ?f) [] \<noteq> []"
    unfolding sel brand_value by simp
  have u2: "setIssueCustomFields ?w (issueKey ?f) (collect_fields ?vals (missingFields ?f) [])
              brand_asked = (Inr (), brand_given)"
    unfolding sel brand_value by (rule brand_update)
  from handleSubmit_resumes [OF n c2 u2] obtain a3 where
    "handleSubmit ?w ?vals (fst (doTransitions ?w ?i ?b fresh_io)) brand_asked
     = run_continuation ?w (onComplete ?f) a3 brand_given"
    by blast
  then have B2: "calls (snd (handleSubmit ?w ?vals (fst (doTransitions ?w ?i ?b fresh_io))
                               brand_asked))
            = calls brand_given @ [Exec ''jira issue view AB-1 --raw'',
                                   move_cmd ?w ''AB-1'' ''Done'', Sleep 600]"
    using brand_board_resumed [OF brand_states(2), of a3] by (simp add: run_continuation_def)
  from R V V2 B B2 show ?thesis by blast
qed

end
